theory Spec2Isabelle
  imports Complex_Main "HOL-Library.Word" "HOL-Library.Multiset"
begin

section \<open>Data model\<close>

text \<open>
  The three scripts (\<^verbatim>\<open>spwnSpcfcLocCamOk.py\<close>, \<^verbatim>\<open>addingTraffic.py\<close>,
  \<^verbatim>\<open>basicEgentFirstTime.py\<close>) drive the CARLA simulator. The simulator, the navigation
  agent and the display library are external: their answers are parameters of the model
  (record \<open>simulator\<close> below). The calls that create, configure, control or release an
  actor and the calls that draw are written to a log, with their answers; queries
  (spawn points, blueprints, traffic lights, events) are not. Printing is left out.
\<close>

type_synonym byte = "8 word"

text \<open>Python exceptions that the modelled code can raise or receive.\<close>

datatype error =
  ValueError | ZeroDivisionError | IndexError | RuntimeError | NameError | AttributeError

text \<open>The fields of \<^verbatim>\<open>carla.Image\<close> that the scripts read.\<close>

record image =
  raw_data :: "byte list"
  width :: nat
  height :: nat

text \<open>A numpy array of shape (rows, columns, channels), as nested lists.\<close>

type_synonym array3 = "byte list list list"

section \<open>Frame decoder: \<^verbatim>\<open>carla_image_to_pygame\<close>\<close>

text \<open>
  \<^verbatim>\<open>np.frombuffer(image.raw_data, dtype=np.uint8)\<close>: one array element per byte.
\<close>

definition frombuffer :: "byte list \<Rightarrow> byte list" where
  "frombuffer buf = buf"

text \<open>
  \<^verbatim>\<open>array.reshape((h, w, c))\<close>: row-major; numpy raises ValueError when the number of
  elements is not \<open>h * w * c\<close>.
\<close>

definition offset :: "nat \<Rightarrow> nat \<Rightarrow> nat \<Rightarrow> nat \<Rightarrow> nat \<Rightarrow> nat" where
  "offset w c i j k = (i * w + j) * c + k"

definition reshape :: "nat \<Rightarrow> nat \<Rightarrow> nat \<Rightarrow> byte list \<Rightarrow> error + array3" where
  "reshape h w c xs =
     (if length xs \<noteq> h * w * c then Inl ValueError
      else Inr (map (\<lambda>i. map (\<lambda>j. map (\<lambda>k. xs ! offset w c i j k) [0..<c]) [0..<w]) [0..<h]))"

text \<open>\<^verbatim>\<open>array[:, :, :3]\<close> and \<^verbatim>\<open>array[:, :, ::-1]\<close>.\<close>

definition first3 :: "array3 \<Rightarrow> array3" where
  "first3 a = map (map (take 3)) a"

definition reverse_channels :: "array3 \<Rightarrow> array3" where
  "reverse_channels a = map (map rev) a"

definition carla_image_to_pygame :: "image \<Rightarrow> error + array3" where
  "carla_image_to_pygame img =
     (let array = frombuffer (raw_data img) in
      case reshape (height img) (width img) 4 array of
        Inl e \<Rightarrow> Inl e
      | Inr array \<Rightarrow>
          let array = first3 array;
              array = reverse_channels array
          in Inr array)"

text \<open>A buffer holding \<open>n\<close> copies of one B,G,R,A quadruple.\<close>

definition constant_buffer :: "nat \<Rightarrow> byte \<Rightarrow> byte \<Rightarrow> byte \<Rightarrow> byte \<Rightarrow> byte list" where
  "constant_buffer n b g r a = concat (replicate n [b, g, r, a])"

section \<open>The simulator as seen by the scripts\<close>

text \<open>An actor handle: the reference the script holds to a simulator-owned object.\<close>

type_synonym handle = nat

record location =
  loc_x :: real
  loc_y :: real
  loc_z :: real

record rotation =
  pitch :: real
  yaw :: real
  roll :: real

record transform =
  location :: location
  rotation :: rotation

record control =
  throttle :: real
  steer :: real
  brake :: real

datatype light_state = Red | Yellow | Green | Off | Unknown

text \<open>The type of a pygame event; only \<^verbatim>\<open>pygame.QUIT\<close> is tested by the scripts.\<close>

datatype event = QUIT | OTHER nat

text \<open>Calls on the simulator or the navigation agent that return nothing.\<close>

datatype command =
    Listen handle
  | SetAutopilot handle bool
  | SetState handle light_state
  | SetGreenTime handle real
  | SetRedTime handle real
  | BasicAgent handle
  | SetDestination location
  | ApplyControl handle control

text \<open>
  One entry of the call log: the call with its arguments and what it answered (\<open>Inl\<close>: it
  raised). A blueprint is represented by its identifier. The display calls are logged too:
  \<open>Blit\<close> stands for \<^verbatim>\<open>make_surface\<close> followed by \<^verbatim>\<open>display.blit(surface, (0, 0))\<close>.
\<close>

datatype entry =
    TrySpawnActor string transform "error + handle option"
  | SpawnActor string transform "handle option" "error + handle"
  | Command command "error option"
  | RunStep "error + control"
  | Destroy handle "error + bool"
  | Blit array3
  | Flip
  | PygameQuit

text \<open>
  The external world. Every answer may depend on the calls made so far (the log), so the
  record describes an arbitrary deterministic simulator:
  \<^item> \<open>connect\<close>: creating the client, setting the timeout, loading the town, getting the
    world and the settle delay; \<open>Some e\<close> when one of them raises;
  \<^item> \<open>get_spawn_points\<close>: \<^verbatim>\<open>world.get_map().get_spawn_points()\<close>;
  \<^item> \<open>find_blueprint\<close>: \<^verbatim>\<open>blueprint_library.find(id)\<close>, which raises when the identifier
    is not in the library;
  \<^item> \<open>try_spawn_actor\<close>: returns None when the actor cannot be created;
  \<^item> \<open>spawn_actor\<close>: raises when the actor cannot be created;
  \<^item> \<open>send\<close>: the calls of type \<open>command\<close>;
  \<^item> \<open>get_traffic_lights\<close>: \<^verbatim>\<open>world.get_actors().filter('traffic.traffic_light')\<close>;
  \<^item> \<open>get_transform\<close>: \<^verbatim>\<open>light.get_transform()\<close>, whose value is only printed;
    \<open>Some e\<close> when it raises;
  \<^item> \<open>run_step\<close>: \<^verbatim>\<open>agent.run_step()\<close>;
  \<^item> \<open>destroy\<close>: \<^verbatim>\<open>actor.destroy()\<close>, whose boolean result says whether the actor was
    destroyed by this call;
  \<^item> \<open>choice\<close>: the index drawn by \<^verbatim>\<open>np.random.choice\<close>;
  \<^item> \<open>events k\<close>: what \<^verbatim>\<open>pygame.event.get()\<close> returns in tick \<open>k\<close> of the display loop;
  \<^item> \<open>frames k\<close>: the frames the sensor delivered, in order, since the display loop last
    read the latest-frame slot (for \<open>k = 0\<close>: since \<^verbatim>\<open>camera.listen\<close>);
  \<^item> \<open>truthy\<close>: the truth value Python gives to a frame object in
    \<^verbatim>\<open>if latest_image:\<close>, which the class of the object decides;
  \<^item> \<open>float_add\<close>: the sum of two Python floats (binary64, rounded);
  \<^item> \<open>float32\<close>: the rounding to binary32 that \<^verbatim>\<open>carla.Location\<close> applies to each
    coordinate it is given.
\<close>

record simulator =
  connect :: "error option"
  get_spawn_points :: "entry list \<Rightarrow> error + transform list"
  find_blueprint :: "entry list \<Rightarrow> string \<Rightarrow> error option"
  try_spawn_actor :: "entry list \<Rightarrow> string \<Rightarrow> transform \<Rightarrow> error + handle option"
  spawn_actor :: "entry list \<Rightarrow> string \<Rightarrow> transform \<Rightarrow> handle option \<Rightarrow> error + handle"
  send :: "entry list \<Rightarrow> command \<Rightarrow> error option"
  get_traffic_lights :: "entry list \<Rightarrow> error + handle list"
  get_transform :: "entry list \<Rightarrow> handle \<Rightarrow> error option"
  run_step :: "entry list \<Rightarrow> error + control"
  destroy :: "entry list \<Rightarrow> handle \<Rightarrow> error + bool"
  choice :: "entry list \<Rightarrow> nat"
  events :: "nat \<Rightarrow> event list"
  frames :: "nat \<Rightarrow> image list"
  truthy :: "image \<Rightarrow> bool"
  float_add :: "real \<Rightarrow> real \<Rightarrow> real"
  float32 :: "real \<Rightarrow> real"

text \<open>
  A local variable of \<^verbatim>\<open>main\<close>: not yet assigned, or holding a value. The scripts
  \<^verbatim>\<open>addingTraffic.py\<close> and \<^verbatim>\<open>spwnSpcfcLocCamOk.py\<close> test \<^verbatim>\<open>'camera' in locals()\<close>.
\<close>

datatype 'a var = Unbound | Bound 'a

text \<open>The locals of \<^verbatim>\<open>main\<close> that outlive a statement, and the call log.\<close>

record state =
  trace :: "entry list"
  vehicle :: "handle option var"
  camera :: "handle option var"
  bus :: "handle option var"
  traffic_cars :: "handle list"
  endpoint_location :: location
  latest_image :: "image option"

text \<open>How a block of statements ends.\<close>

datatype flow = Continue | Return | Raise error | OutOfFuel

definition then_do :: "flow \<times> state \<Rightarrow> (state \<Rightarrow> flow \<times> state) \<Rightarrow> flow \<times> state" where
  "then_do r f = (case r of (Continue, s) \<Rightarrow> f s | _ \<Rightarrow> r)"

definition record_call :: "entry \<Rightarrow> state \<Rightarrow> state" where
  "record_call e s = s\<lparr>trace := trace s @ [e]\<rparr>"

text \<open>Reading a variable, and calling a method on the object it holds.\<close>

definition read_var :: "'a var \<Rightarrow> error + 'a" where
  "read_var v = (case v of Unbound \<Rightarrow> Inl NameError | Bound a \<Rightarrow> Inr a)"

definition deref :: "handle option var \<Rightarrow> error + handle" where
  "deref v = (case v of Unbound \<Rightarrow> Inl NameError
                      | Bound None \<Rightarrow> Inl AttributeError
                      | Bound (Some h) \<Rightarrow> Inr h)"

text \<open>A call of type \<open>command\<close>: ask the simulator, log the call, go on unless it raised.\<close>

definition send_command :: "simulator \<Rightarrow> command \<Rightarrow> state \<Rightarrow> flow \<times> state" where
  "send_command sim c s =
     (let r = send sim (trace s) c;
          s = record_call (Command c r) s
      in case r of Some e \<Rightarrow> (Raise e, s) | None \<Rightarrow> (Continue, s))"

section \<open>Sensor binding: \<^verbatim>\<open>process_image\<close>\<close>

text \<open>
  \<^verbatim>\<open>def process_image(image): nonlocal latest_image; latest_image = image\<close>.
  The callback takes the frame and the slot and returns the new content of the slot.
\<close>

definition process_image :: "image \<Rightarrow> image option \<Rightarrow> image option" where
  "process_image img slot = Some img"

text \<open>The simulator invoking the callback once for each frame, in order.\<close>

fun deliver :: "image list \<Rightarrow> image option \<Rightarrow> image option" where
  "deliver [] slot = slot"
| "deliver (f # fs) slot = deliver fs (process_image f slot)"

section \<open>Actor spawner: \<^verbatim>\<open>spawn_traffic_cars\<close>\<close>

text \<open>
  The loop \<^verbatim>\<open>for i in range(num_cars)\<close> over the remaining indices. \<open>pick\<close> is the
  choice of the blueprint identifier, the only place where the two scripts differ.
\<close>

fun spawn_loop :: "simulator \<Rightarrow> (entry list \<Rightarrow> string) \<Rightarrow> transform list \<Rightarrow> nat list
    \<Rightarrow> handle list \<Rightarrow> entry list \<Rightarrow> (error + handle list) \<times> entry list" where
  "spawn_loop sim pick spawn_points [] cars tr = (Inr cars, tr)"
| "spawn_loop sim pick spawn_points (i # rest) cars tr =
     (if length spawn_points = 0 then (Inl ZeroDivisionError, tr)
      else
        let spawn_point = spawn_points ! (i mod length spawn_points);
            bp = pick tr
        in case find_blueprint sim tr bp of
             Some e \<Rightarrow> (Inl e, tr)
           | None \<Rightarrow>
               let r = try_spawn_actor sim tr bp spawn_point;
                   tr1 = tr @ [TrySpawnActor bp spawn_point r]
               in case r of
                    Inl e \<Rightarrow> (Inl e, tr1)
                  | Inr None \<Rightarrow> spawn_loop sim pick spawn_points rest cars tr1
                  | Inr (Some v) \<Rightarrow>
                      let cars1 = cars @ [v];
                          r2 = send sim tr1 (SetAutopilot v True);
                          tr2 = tr1 @ [Command (SetAutopilot v True) r2]
                      in case r2 of
                           Some e \<Rightarrow> (Inl e, tr2)
                         | None \<Rightarrow> spawn_loop sim pick spawn_points rest cars1 tr2)"

definition spawn_traffic_cars :: "simulator \<Rightarrow> (entry list \<Rightarrow> string) \<Rightarrow> int \<Rightarrow> entry list
    \<Rightarrow> (error + handle list) \<times> entry list" where
  "spawn_traffic_cars sim pick num_cars tr =
     (case get_spawn_points sim tr of
        Inl e \<Rightarrow> (Inl e, tr)
      | Inr spawn_points \<Rightarrow> spawn_loop sim pick spawn_points [0..<nat num_cars] [] tr)"

text \<open>\<^verbatim>\<open>addingTraffic.py\<close>: always the same blueprint.\<close>

definition pick_addingTraffic :: "entry list \<Rightarrow> string" where
  "pick_addingTraffic tr = ''vehicle.tesla.model3''"

text \<open>\<^verbatim>\<open>basicEgentFirstTime.py\<close>: \<^verbatim>\<open>np.random.choice(vehicle_types)\<close>.\<close>

definition vehicle_types :: "string list" where
  "vehicle_types = [''vehicle.audi.tt'', ''vehicle.tesla.model3'', ''vehicle.carlamotors.carlacola'',
                    ''vehicle.mini.cooper_s'', ''vehicle.dodge.charger_police'',
                    ''vehicle.harley-davidson.low_rider'']"

definition pick_basicEgent :: "simulator \<Rightarrow> entry list \<Rightarrow> string" where
  "pick_basicEgent sim tr = vehicle_types ! (choice sim tr mod length vehicle_types)"

section \<open>Traffic lights: \<^verbatim>\<open>setup_traffic_lights\<close>\<close>

text \<open>
  For each light: the three settings, the append, then the \<^verbatim>\<open>print\<close> of
  \<^verbatim>\<open>light.get_transform().location\<close>. The call \<^verbatim>\<open>get_transform\<close> is not logged and
  its value is not used, but it may raise, which ends the loop.
\<close>

fun lights_loop :: "simulator \<Rightarrow> handle list \<Rightarrow> handle list \<Rightarrow> entry list
    \<Rightarrow> (error + handle list) \<times> entry list" where
  "lights_loop sim [] traffic_lights tr = (Inr traffic_lights, tr)"
| "lights_loop sim (light # rest) traffic_lights tr =
     (let r1 = send sim tr (SetState light Red);
          tr1 = tr @ [Command (SetState light Red) r1]
      in case r1 of
           Some e \<Rightarrow> (Inl e, tr1)
         | None \<Rightarrow>
             let r2 = send sim tr1 (SetGreenTime light 5);
                 tr2 = tr1 @ [Command (SetGreenTime light 5) r2]
             in case r2 of
                  Some e \<Rightarrow> (Inl e, tr2)
                | None \<Rightarrow>
                    let r3 = send sim tr2 (SetRedTime light 5);
                        tr3 = tr2 @ [Command (SetRedTime light 5) r3]
                    in case r3 of
                         Some e \<Rightarrow> (Inl e, tr3)
                       | None \<Rightarrow>
                           (case get_transform sim tr3 light of
                              Some e \<Rightarrow> (Inl e, tr3)
                            | None \<Rightarrow> lights_loop sim rest (traffic_lights @ [light]) tr3))"

definition setup_traffic_lights :: "simulator \<Rightarrow> entry list
    \<Rightarrow> (error + handle list) \<times> entry list" where
  "setup_traffic_lights sim tr =
     (case get_traffic_lights sim tr of
        Inl e \<Rightarrow> (Inl e, tr)
      | Inr lights \<Rightarrow> lights_loop sim lights [] tr)"


section \<open>Display loop\<close>

text \<open>\<^verbatim>\<open>for event in pygame.event.get(): if event.type == pygame.QUIT: return\<close>\<close>

fun quit_seen :: "event list \<Rightarrow> bool" where
  "quit_seen [] = False"
| "quit_seen (e # es) = (if e = QUIT then True else quit_seen es)"

text \<open>\<^verbatim>\<open>image_array.swapaxes(0, 1)\<close> on an array of shape (h, w, 3).\<close>

definition swapaxes01 :: "nat \<Rightarrow> nat \<Rightarrow> array3 \<Rightarrow> array3" where
  "swapaxes01 h w a = map (\<lambda>j. map (\<lambda>i. a ! i ! j) [0..<h]) [0..<w]"

text \<open>
  \<^verbatim>\<open>control = agent.run_step(); vehicle.apply_control(control)\<close>
  (only in \<^verbatim>\<open>basicEgentFirstTime.py\<close>).
\<close>

definition agent_step :: "simulator \<Rightarrow> state \<Rightarrow> flow \<times> state" where
  "agent_step sim s =
     (let r = run_step sim (trace s);
          s = record_call (RunStep r) s
      in case r of
           Inl e \<Rightarrow> (Raise e, s)
         | Inr ctl \<Rightarrow>
             (case deref (vehicle s) of
                Inl e \<Rightarrow> (Raise e, s)
              | Inr veh \<Rightarrow> send_command sim (ApplyControl veh ctl) s))"

text \<open>
  \<^verbatim>\<open>if latest_image: image_array = carla_image_to_pygame(latest_image); ...; display.blit(...)\<close>.
  The slot is read here, so the frames delivered since the last read are stored first.
  The test is false for None and for a frame object that Python counts as false.
\<close>

definition render :: "simulator \<Rightarrow> nat \<Rightarrow> state \<Rightarrow> flow \<times> state" where
  "render sim k s =
     (let s = s\<lparr>latest_image := deliver (frames sim k) (latest_image s)\<rparr>
      in case latest_image s of
           None \<Rightarrow> (Continue, s)
         | Some img \<Rightarrow>
             if \<not> truthy sim img then (Continue, s)
             else
               (case carla_image_to_pygame img of
                  Inl e \<Rightarrow> (Raise e, s)
                | Inr image_array \<Rightarrow>
                    (Continue, record_call (Blit (swapaxes01 (height img) (width img) image_array)) s)))"

text \<open>
  \<^verbatim>\<open>while True\<close>, tick \<open>k\<close>, with fuel: \<open>OutOfFuel\<close> says that the loop is still running
  after the given number of ticks. \<open>agent\<close> is true in \<^verbatim>\<open>basicEgentFirstTime.py\<close> only.
\<close>

fun display_loop :: "simulator \<Rightarrow> bool \<Rightarrow> nat \<Rightarrow> nat \<Rightarrow> state \<Rightarrow> flow \<times> state" where
  "display_loop sim agent 0 k s = (OutOfFuel, s)"
| "display_loop sim agent (Suc fuel) k s =
     (if quit_seen (events sim k) then (Return, s)
      else
        then_do (if agent then agent_step sim s else (Continue, s)) (\<lambda>s.
        then_do (render sim k s) (\<lambda>s.
        display_loop sim agent fuel (Suc k) (record_call Flip s))))"

section \<open>Acquiring the reference vehicle and the camera\<close>

definition connect_stage :: "simulator \<Rightarrow> state \<Rightarrow> flow \<times> state" where
  "connect_stage sim s = (case connect sim of Some e \<Rightarrow> (Raise e, s) | None \<Rightarrow> (Continue, s))"

text \<open>
  \<^verbatim>\<open>camera_bp = blueprint_library.find('sensor.camera.rgb')\<close> up to \<^verbatim>\<open>camera.listen(...)\<close>,
  the same in the three scripts but for the camera pose.
\<close>

definition attach_camera :: "simulator \<Rightarrow> transform \<Rightarrow> state \<Rightarrow> flow \<times> state" where
  "attach_camera sim camera_transform s =
     (case find_blueprint sim (trace s) ''sensor.camera.rgb'' of
        Some e \<Rightarrow> (Raise e, s)
      | None \<Rightarrow>
          (case read_var (vehicle s) of
             Inl e \<Rightarrow> (Raise e, s)
           | Inr attach_to \<Rightarrow>
               let r = spawn_actor sim (trace s) ''sensor.camera.rgb'' camera_transform attach_to;
                   s = record_call (SpawnActor ''sensor.camera.rgb'' camera_transform attach_to r) s
               in case r of
                    Inl e \<Rightarrow> (Raise e, s)
                  | Inr cam \<Rightarrow>
                      let s = s\<lparr>camera := Bound (Some cam)\<rparr>;
                          s = s\<lparr>latest_image := None\<rparr>
                      in send_command sim (Listen cam) s))"

text \<open>
  \<^verbatim>\<open>vehicle = world.try_spawn_actor(vehicle_bp, spawn_point); if vehicle is None: return\<close>
\<close>

definition spawn_reference_vehicle :: "simulator \<Rightarrow> transform \<Rightarrow> state \<Rightarrow> flow \<times> state" where
  "spawn_reference_vehicle sim spawn_point s =
     (let r = try_spawn_actor sim (trace s) ''vehicle.tesla.model3'' spawn_point;
          s = record_call (TrySpawnActor ''vehicle.tesla.model3'' spawn_point r) s
      in case r of
           Inl e \<Rightarrow> (Raise e, s)
         | Inr v \<Rightarrow>
             let s = s\<lparr>vehicle := Bound v\<rparr>
             in if v = None then (Return, s) else (Continue, s))"

text \<open>
  \<^verbatim>\<open>spwnSpcfcLocCamOk.py\<close> lines 29 to 82 and \<^verbatim>\<open>addingTraffic.py\<close> lines 50 to 103:
  from the connection to \<^verbatim>\<open>camera.listen\<close>.
\<close>

definition third_person_camera :: transform where
  "third_person_camera =
     \<lparr>location = \<lparr>loc_x = - 6, loc_y = 0, loc_z = 3\<rparr>,
      rotation = \<lparr>pitch = - 15, yaw = 0, roll = 0\<rparr>\<rparr>"

definition vehicle_and_camera :: "simulator \<Rightarrow> state \<Rightarrow> flow \<times> state" where
  "vehicle_and_camera sim s =
     then_do (connect_stage sim s) (\<lambda>s.
       case find_blueprint sim (trace s) ''vehicle.tesla.model3'' of
         Some e \<Rightarrow> (Raise e, s)
       | None \<Rightarrow>
           (case get_spawn_points sim (trace s) of
              Inl e \<Rightarrow> (Raise e, s)
            | Inr spawn_points \<Rightarrow>
                if spawn_points = [] then (Return, s)
                else
                  then_do (spawn_reference_vehicle sim (spawn_points ! 0) s)
                    (attach_camera sim third_person_camera)))"

section \<open>Teardown: the \<^verbatim>\<open>finally\<close> blocks\<close>

text \<open>One \<^verbatim>\<open>actor.destroy()\<close>: the result is dropped, an exception ends the block.\<close>

definition destroy_actor :: "simulator \<Rightarrow> handle \<Rightarrow> entry list \<Rightarrow> error option \<times> entry list" where
  "destroy_actor sim h tr =
     (let r = destroy sim tr h
      in (case r of Inl e \<Rightarrow> Some e | Inr b \<Rightarrow> None, tr @ [Destroy h r]))"

definition and_then :: "error option \<times> entry list \<Rightarrow> (entry list \<Rightarrow> error option \<times> entry list)
    \<Rightarrow> error option \<times> entry list" where
  "and_then r f = (case r of (None, tr) \<Rightarrow> f tr | (Some e, tr) \<Rightarrow> (Some e, tr))"

text \<open>\<^verbatim>\<open>for traffic_car in traffic_cars: traffic_car.destroy()\<close>\<close>

fun destroy_each :: "simulator \<Rightarrow> handle list \<Rightarrow> entry list \<Rightarrow> error option \<times> entry list" where
  "destroy_each sim [] tr = (None, tr)"
| "destroy_each sim (h # hs) tr = and_then (destroy_actor sim h tr) (destroy_each sim hs)"

text \<open>\<^verbatim>\<open>if camera is not None: camera.destroy()\<close>\<close>

definition destroy_if_not_None :: "simulator \<Rightarrow> handle option var \<Rightarrow> entry list
    \<Rightarrow> error option \<times> entry list" where
  "destroy_if_not_None sim v tr =
     (case v of
        Unbound \<Rightarrow> (Some NameError, tr)
      | Bound None \<Rightarrow> (None, tr)
      | Bound (Some h) \<Rightarrow> destroy_actor sim h tr)"

text \<open>\<^verbatim>\<open>if 'camera' in locals() and camera is not None: camera.destroy()\<close>\<close>

definition destroy_if_in_locals :: "simulator \<Rightarrow> handle option var \<Rightarrow> entry list
    \<Rightarrow> error option \<times> entry list" where
  "destroy_if_in_locals sim v tr =
     (case v of
        Unbound \<Rightarrow> (None, tr)
      | Bound None \<Rightarrow> (None, tr)
      | Bound (Some h) \<Rightarrow> destroy_actor sim h tr)"

text \<open>
  How \<^verbatim>\<open>main\<close> ends: the process exits (\<open>Exited None\<close>: \<^verbatim>\<open>main\<close> returned;
  \<open>Exited (Some e)\<close>: \<open>e\<close> escaped from the \<^verbatim>\<open>finally\<close> block), or the display loop
  is still running when the fuel is used up.
\<close>

datatype outcome = Exited "error option" | StillRunning

text \<open>
  \<^verbatim>\<open>try: ... except Exception as e: print(...) finally: ...\<close>: whatever ends the body,
  the teardown runs.
\<close>

definition try_finally :: "flow \<times> state \<Rightarrow> (state \<Rightarrow> error option \<times> entry list)
    \<Rightarrow> outcome \<times> entry list" where
  "try_finally body teardown =
     (case body of
        (OutOfFuel, s) \<Rightarrow> (StillRunning, trace s)
      | (fl, s) \<Rightarrow> (case teardown s of (err, tr) \<Rightarrow> (Exited err, tr)))"

section \<open>\<^verbatim>\<open>spwnSpcfcLocCamOk.py\<close>: \<^verbatim>\<open>main\<close>\<close>

definition init_locals :: state where
  "init_locals =
     \<lparr>trace = [], vehicle = Unbound, camera = Unbound, bus = Unbound, traffic_cars = [],
      endpoint_location = \<lparr>loc_x = 0, loc_y = 0, loc_z = 0\<rparr>, latest_image = None\<rparr>"

definition try_spwnSpcfcLocCamOk :: "simulator \<Rightarrow> nat \<Rightarrow> flow \<times> state" where
  "try_spwnSpcfcLocCamOk sim fuel =
     then_do (vehicle_and_camera sim init_locals) (display_loop sim False fuel 0)"

definition finally_spwnSpcfcLocCamOk :: "simulator \<Rightarrow> state \<Rightarrow> error option \<times> entry list" where
  "finally_spwnSpcfcLocCamOk sim s =
     and_then (and_then (None, trace s @ [PygameQuit])
       (destroy_if_in_locals sim (camera s)))
       (destroy_if_in_locals sim (vehicle s))"

definition main_spwnSpcfcLocCamOk :: "simulator \<Rightarrow> nat \<Rightarrow> outcome \<times> entry list" where
  "main_spwnSpcfcLocCamOk sim fuel =
     try_finally (try_spwnSpcfcLocCamOk sim fuel) (finally_spwnSpcfcLocCamOk sim)"

section \<open>\<^verbatim>\<open>addingTraffic.py\<close>: \<^verbatim>\<open>main\<close>\<close>

text \<open>\<^verbatim>\<open>traffic_cars = spawn_traffic_cars(world, blueprint_library, num_cars=10)\<close>\<close>

definition traffic_stage :: "simulator \<Rightarrow> (entry list \<Rightarrow> string) \<Rightarrow> state \<Rightarrow> flow \<times> state" where
  "traffic_stage sim pick s =
     (case spawn_traffic_cars sim pick 10 (trace s) of
        (Inl e, tr) \<Rightarrow> (Raise e, s\<lparr>trace := tr\<rparr>)
      | (Inr cars, tr) \<Rightarrow> (Continue, s\<lparr>trace := tr, traffic_cars := cars\<rparr>))"

definition before_traffic_addingTraffic :: "simulator \<Rightarrow> flow \<times> state" where
  "before_traffic_addingTraffic sim = vehicle_and_camera sim init_locals"

definition try_addingTraffic :: "simulator \<Rightarrow> nat \<Rightarrow> flow \<times> state" where
  "try_addingTraffic sim fuel =
     then_do (before_traffic_addingTraffic sim) (\<lambda>s.
     then_do (traffic_stage sim pick_addingTraffic s)
       (display_loop sim False fuel 0))"

definition finally_addingTraffic :: "simulator \<Rightarrow> state \<Rightarrow> error option \<times> entry list" where
  "finally_addingTraffic sim s =
     and_then (and_then (and_then (None, trace s @ [PygameQuit])
       (destroy_if_in_locals sim (camera s)))
       (destroy_if_in_locals sim (vehicle s)))
       (destroy_each sim (traffic_cars s))"

definition main_addingTraffic :: "simulator \<Rightarrow> nat \<Rightarrow> outcome \<times> entry list" where
  "main_addingTraffic sim fuel =
     try_finally (try_addingTraffic sim fuel) (finally_addingTraffic sim)"

section \<open>\<^verbatim>\<open>basicEgentFirstTime.py\<close>: \<^verbatim>\<open>main\<close>\<close>

definition init_locals_basicEgent :: state where
  "init_locals_basicEgent =
     init_locals\<lparr>vehicle := Bound None, camera := Bound None, bus := Bound None\<rparr>"

definition top_down_camera :: transform where
  "top_down_camera =
     \<lparr>location = \<lparr>loc_x = 130, loc_y = - 65, loc_z = 210\<rparr>,
      rotation = \<lparr>pitch = - 90, yaw = 0, roll = 0\<rparr>\<rparr>"

text \<open>Lines 79 to 100: the start point, the end point and the main vehicle. The end point
  is \<^verbatim>\<open>carla.Location(x=start.x + 115, y=start.y + 135, z=start.z)\<close>: two sums of Python
  floats, and each coordinate rounded by \<^verbatim>\<open>carla.Location\<close>.\<close>

definition start_and_vehicle :: "simulator \<Rightarrow> state \<Rightarrow> flow \<times> state" where
  "start_and_vehicle sim s =
     (case get_spawn_points sim (trace s) of
        Inl e \<Rightarrow> (Raise e, s)
      | Inr spawn_points \<Rightarrow>
          if spawn_points = [] then (Return, s)
          else
            let start_point = spawn_points ! 0;
                s = s\<lparr>endpoint_location :=
                       \<lparr>loc_x = float32 sim (float_add sim (loc_x (location start_point)) 115),
                        loc_y = float32 sim (float_add sim (loc_y (location start_point)) 135),
                        loc_z = float32 sim (loc_z (location start_point))\<rparr>\<rparr>
            in case find_blueprint sim (trace s) ''vehicle.tesla.model3'' of
                 Some e \<Rightarrow> (Raise e, s)
               | None \<Rightarrow> spawn_reference_vehicle sim start_point s)"

text \<open>Lines 120 to 127: the bus that marks the end point.\<close>

definition spawn_endpoint_marker :: "simulator \<Rightarrow> state \<Rightarrow> flow \<times> state" where
  "spawn_endpoint_marker sim s =
     (case find_blueprint sim (trace s) ''vehicle.carlamotors.carlacola'' of
        Some e \<Rightarrow> (Raise e, s)
      | None \<Rightarrow>
          let bus_transform = \<lparr>location = endpoint_location s,
                               rotation = \<lparr>pitch = 0, yaw = 0, roll = 0\<rparr>\<rparr>;
              r = try_spawn_actor sim (trace s) ''vehicle.carlamotors.carlacola'' bus_transform;
              s = record_call (TrySpawnActor ''vehicle.carlamotors.carlacola'' bus_transform r) s
          in case r of
               Inl e \<Rightarrow> (Raise e, s)
             | Inr b \<Rightarrow> (Continue, s\<lparr>bus := Bound b\<rparr>))"

text \<open>\<^verbatim>\<open>traffic_lights = setup_traffic_lights(world)\<close>\<close>

definition lights_stage :: "simulator \<Rightarrow> state \<Rightarrow> flow \<times> state" where
  "lights_stage sim s =
     (case setup_traffic_lights sim (trace s) of
        (Inl e, tr) \<Rightarrow> (Raise e, s\<lparr>trace := tr\<rparr>)
      | (Inr traffic_lights, tr) \<Rightarrow> (Continue, s\<lparr>trace := tr\<rparr>))"

text \<open>\<^verbatim>\<open>agent = BasicAgent(vehicle); agent.set_destination(endpoint_location)\<close>\<close>

definition agent_stage :: "simulator \<Rightarrow> state \<Rightarrow> flow \<times> state" where
  "agent_stage sim s =
     (case deref (vehicle s) of
        Inl e \<Rightarrow> (Raise e, s)
      | Inr veh \<Rightarrow>
          then_do (send_command sim (BasicAgent veh) s)
            (\<lambda>s. send_command sim (SetDestination (endpoint_location s)) s))"

definition before_lights_basicEgent :: "simulator \<Rightarrow> flow \<times> state" where
  "before_lights_basicEgent sim =
     then_do (connect_stage sim init_locals_basicEgent) (\<lambda>s.
     then_do (start_and_vehicle sim s) (\<lambda>s.
     then_do (attach_camera sim top_down_camera s)
       (spawn_endpoint_marker sim)))"

definition before_traffic_basicEgent :: "simulator \<Rightarrow> flow \<times> state" where
  "before_traffic_basicEgent sim = then_do (before_lights_basicEgent sim) (lights_stage sim)"

definition before_loop_basicEgent :: "simulator \<Rightarrow> flow \<times> state" where
  "before_loop_basicEgent sim =
     then_do (before_traffic_basicEgent sim) (\<lambda>s.
     then_do (traffic_stage sim (pick_basicEgent sim) s)
       (agent_stage sim))"

definition try_basicEgent :: "simulator \<Rightarrow> nat \<Rightarrow> flow \<times> state" where
  "try_basicEgent sim fuel =
     then_do (before_loop_basicEgent sim) (display_loop sim True fuel 0)"

definition finally_basicEgent :: "simulator \<Rightarrow> state \<Rightarrow> error option \<times> entry list" where
  "finally_basicEgent sim s =
     and_then (and_then (and_then (and_then (None, trace s @ [PygameQuit])
       (destroy_if_not_None sim (camera s)))
       (destroy_if_not_None sim (vehicle s)))
       (destroy_if_not_None sim (bus s)))
       (destroy_each sim (traffic_cars s))"

definition main_basicEgent :: "simulator \<Rightarrow> nat \<Rightarrow> outcome \<times> entry list" where
  "main_basicEgent sim fuel =
     try_finally (try_basicEgent sim fuel) (finally_basicEgent sim)"

section \<open>Reading the call log\<close>

text \<open>The handles a call handed to the script, and the handle a call asked to release.\<close>

fun acquired_by :: "entry \<Rightarrow> handle list" where
  "acquired_by (TrySpawnActor bp t (Inr (Some h))) = [h]"
| "acquired_by (SpawnActor bp t a (Inr h)) = [h]"
| "acquired_by e = []"

fun released_by :: "entry \<Rightarrow> handle list" where
  "released_by (Destroy h r) = [h]"
| "released_by e = []"

definition acquired :: "entry list \<Rightarrow> handle list" where
  "acquired tr = concat (map acquired_by tr)"

definition released :: "entry list \<Rightarrow> handle list" where
  "released tr = concat (map released_by tr)"

text \<open>The handles the locals of \<^verbatim>\<open>main\<close> hold, in the order of the teardown.\<close>

definition holds :: "handle option var \<Rightarrow> handle list" where
  "holds v = (case v of Bound (Some h) \<Rightarrow> [h] | _ \<Rightarrow> [])"

definition held :: "state \<Rightarrow> handle list" where
  "held s = holds (camera s) @ holds (vehicle s) @ holds (bus s) @ traffic_cars s"

text \<open>The poses of the creation requests, the handles they returned, and the actors on
  which autonomous driving was switched on, each in the order of the calls.\<close>

fun requested_pose :: "entry \<Rightarrow> transform list" where
  "requested_pose (TrySpawnActor bp t r) = [t]"
| "requested_pose e = []"

fun created_by :: "entry \<Rightarrow> handle list" where
  "created_by (TrySpawnActor bp t (Inr (Some h))) = [h]"
| "created_by e = []"

fun autopilot_by :: "entry \<Rightarrow> handle list" where
  "autopilot_by (Command (SetAutopilot h True) None) = [h]"
| "autopilot_by e = []"

definition requested_poses :: "entry list \<Rightarrow> transform list" where
  "requested_poses tr = concat (map requested_pose tr)"

definition created :: "entry list \<Rightarrow> handle list" where
  "created tr = concat (map created_by tr)"

definition autopilot_enabled :: "entry list \<Rightarrow> handle list" where
  "autopilot_enabled tr = concat (map autopilot_by tr)"


text \<open>The settings a traffic light has received: the last state, green time and red time
  that were set on it.\<close>

fun state_set_by :: "entry \<Rightarrow> (handle \<times> light_state) list" where
  "state_set_by (Command (SetState h st) None) = [(h, st)]"
| "state_set_by e = []"

fun green_time_set_by :: "entry \<Rightarrow> (handle \<times> real) list" where
  "green_time_set_by (Command (SetGreenTime h d) None) = [(h, d)]"
| "green_time_set_by e = []"

fun red_time_set_by :: "entry \<Rightarrow> (handle \<times> real) list" where
  "red_time_set_by (Command (SetRedTime h d) None) = [(h, d)]"
| "red_time_set_by e = []"

definition light_state_of :: "entry list \<Rightarrow> handle \<Rightarrow> light_state option" where
  "light_state_of tr h = map_of (rev (concat (map state_set_by tr))) h"

definition green_time_of :: "entry list \<Rightarrow> handle \<Rightarrow> real option" where
  "green_time_of tr h = map_of (rev (concat (map green_time_set_by tr))) h"

definition red_time_of :: "entry list \<Rightarrow> handle \<Rightarrow> real option" where
  "red_time_of tr h = map_of (rev (concat (map red_time_set_by tr))) h"

text \<open>Entries of the log that render or that control the reference vehicle.\<close>

fun render_or_control :: "entry \<Rightarrow> bool" where
  "render_or_control (Blit a) = True"
| "render_or_control Flip = True"
| "render_or_control (RunStep r) = True"
| "render_or_control (Command (ApplyControl h c) r) = True"
| "render_or_control e = False"

text \<open>The kinds of entries that the spawner, the traffic-light setup and the teardown
  write.\<close>

fun spawner_entry :: "entry \<Rightarrow> bool" where
  "spawner_entry (TrySpawnActor bp t r) = True"
| "spawner_entry (Command (SetAutopilot h b) r) = True"
| "spawner_entry e = False"

fun light_entry :: "entry \<Rightarrow> bool" where
  "light_entry (Command (SetState h st) r) = True"
| "light_entry (Command (SetGreenTime h d) r) = True"
| "light_entry (Command (SetRedTime h d) r) = True"
| "light_entry e = False"

fun teardown_entry :: "entry \<Rightarrow> bool" where
  "teardown_entry PygameQuit = True"
| "teardown_entry (Destroy h r) = True"
| "teardown_entry e = False"

definition light_commands :: "handle \<Rightarrow> entry list" where
  "light_commands h =
     [Command (SetState h Red) None, Command (SetGreenTime h 5) None,
      Command (SetRedTime h 5) None]"

text \<open>
  The bookkeeping is in order: the locals hold exactly the handles acquired so far, and
  nothing has been released yet.
\<close>

definition tidy :: "state \<Rightarrow> bool" where
  "tidy s \<longleftrightarrow> mset (held s) = mset (acquired (trace s)) \<and> released (trace s) = []"

text \<open>
  The spawner, called in the state that the stages before it have reached, does not raise after it has
  created an actor: it returns its list, or it raises with no actor created.
\<close>

definition spawner_keeps_handles :: "simulator \<Rightarrow> (entry list \<Rightarrow> string) \<Rightarrow> flow \<times> state \<Rightarrow> bool" where
  "spawner_keeps_handles sim pick reached \<longleftrightarrow>
     (case reached of
        (Continue, s) \<Rightarrow>
          (case spawn_traffic_cars sim pick 10 (trace s) of
             (Inl e, tr) \<Rightarrow> created tr = created (trace s)
           | (Inr cars, tr) \<Rightarrow> True)
      | _ \<Rightarrow> True)"

text \<open>
  From \<open>s\<close> to \<open>s'\<close> the handle-holding locals are unchanged and the log has grown by
  entries of kind \<open>P\<close> only.
\<close>

definition only_logs :: "(entry \<Rightarrow> bool) \<Rightarrow> state \<Rightarrow> state \<Rightarrow> bool" where
  "only_logs P s s' \<longleftrightarrow>
     (\<exists>new. trace s' = trace s @ new \<and> list_all P new)
     \<and> vehicle s' = vehicle s \<and> camera s' = camera s \<and> bus s' = bus s
     \<and> traffic_cars s' = traffic_cars s"

text \<open>An entry that neither hands out nor releases a handle.\<close>

definition neutral :: "entry \<Rightarrow> bool" where
  "neutral e \<longleftrightarrow> acquired_by e = [] \<and> released_by e = []"


section \<open>Example simulators\<close>

text \<open>
  A simulator in which nothing raises. The map has two spawn points; a creation request
  fails (returns None) when an earlier request used the same pose, and otherwise returns a
  fresh handle. The user closes the window in the second tick. A frame counts as true
  when its buffer is not empty.
\<close>

definition pose_at :: "real \<Rightarrow> transform" where
  "pose_at a = \<lparr>location = \<lparr>loc_x = a, loc_y = 0, loc_z = 0\<rparr>,
               rotation = \<lparr>pitch = 0, yaw = 0, roll = 0\<rparr>\<rparr>"

definition calm_simulator :: simulator where
  "calm_simulator =
     \<lparr>connect = None,
      get_spawn_points = (\<lambda>tr. Inr [pose_at 1, pose_at 2]),
      find_blueprint = (\<lambda>tr bp. None),
      try_spawn_actor = (\<lambda>tr bp t. if t \<in> set (requested_poses tr) then Inr None
                                     else Inr (Some (length tr))),
      spawn_actor = (\<lambda>tr bp t a. Inr (length tr)),
      send = (\<lambda>tr c. None),
      get_traffic_lights = (\<lambda>tr. Inr [100, 101]),
      get_transform = (\<lambda>tr h. None),
      run_step = (\<lambda>tr. Inr \<lparr>throttle = 1, steer = 0, brake = 0\<rparr>),
      destroy = (\<lambda>tr h. Inr True),
      choice = (\<lambda>tr. length tr),
      events = (\<lambda>k. if k = 1 then [OTHER 3, QUIT] else []),
      frames = (\<lambda>k. []),
      truthy = (\<lambda>img. raw_data img \<noteq> []),
      float_add = (\<lambda>a b. a + b),
      float32 = (\<lambda>a. a)\<rparr>"

text \<open>The same simulator with a map that has no spawn point.\<close>

definition empty_map_simulator :: simulator where
  "empty_map_simulator = calm_simulator\<lparr>get_spawn_points := (\<lambda>tr. Inr [])\<rparr>"

text \<open>Releasing the camera (handle 1) raises; every other release succeeds.\<close>

definition failing_release_simulator :: simulator where
  "failing_release_simulator =
     calm_simulator\<lparr>destroy := (\<lambda>tr h. if h = 1 then Inl RuntimeError else Inr True)\<rparr>"

text \<open>The reference vehicle (handle 0) is already gone when the teardown runs: its release
  returns False.\<close>

definition stale_handle_simulator :: simulator where
  "stale_handle_simulator = calm_simulator\<lparr>destroy := (\<lambda>tr h. Inr (h \<noteq> 0))\<rparr>"





text \<open>Nobody closes the window; the first frame has 3 bytes for a 1 x 1 image, the later
  frames are well formed.\<close>

definition malformed_frame :: image where
  "malformed_frame = \<lparr>raw_data = [1, 2, 3], width = 1, height = 1\<rparr>"

definition well_formed_frame :: image where
  "well_formed_frame = \<lparr>raw_data = [1, 2, 3, 4], width = 1, height = 1\<rparr>"

definition malformed_frame_simulator :: simulator where
  "malformed_frame_simulator =
     calm_simulator\<lparr>events := (\<lambda>k. []),
                    frames := (\<lambda>k. if k = 0 then [malformed_frame] else [well_formed_frame])\<rparr>"


section \<open>Predicates used in the proofs\<close>

text \<open>
  What the spawner loop has done when it stops, whatever the way: the log has grown by
  spawner entries only, the creation requests made are a prefix of the cyclic pose
  assignment and, when the loop returns, every unit was requested, the list returned
  holds the handles created, and autonomous driving is on for exactly those.
\<close>

definition spawn_loop_post :: "transform list \<Rightarrow> nat list \<Rightarrow> handle list \<Rightarrow> entry list
    \<Rightarrow> (error + handle list) \<Rightarrow> entry list \<Rightarrow> bool" where
  "spawn_loop_post sp ixs cars tr res tr' \<longleftrightarrow>
     (\<exists>new n. tr' = tr @ new \<and> n \<le> length ixs
        \<and> requested_poses new = map (\<lambda>i. sp ! (i mod length sp)) (take n ixs)
        \<and> list_all spawner_entry new
        \<and> (\<forall>cs. res = Inr cs \<longrightarrow>
              n = length ixs \<and> cs = cars @ created new \<and> autopilot_enabled new = created new))"

text \<open>The same for the loop over the traffic lights.\<close>

definition lights_loop_post :: "handle list \<Rightarrow> handle list \<Rightarrow> entry list
    \<Rightarrow> (error + handle list) \<Rightarrow> entry list \<Rightarrow> bool" where
  "lights_loop_post lights acc tr res tr' \<longleftrightarrow>
     (\<exists>new. tr' = tr @ new \<and> list_all light_entry new
        \<and> (\<forall>ls. res = Inr ls \<longrightarrow>
              ls = acc @ lights \<and> new = concat (map light_commands lights)))"

text \<open>What a stage leaves as it found it.\<close>

definition keeps_bus_and_traffic :: "state \<Rightarrow> state \<Rightarrow> bool" where
  "keeps_bus_and_traffic s s' \<longleftrightarrow> bus s' = bus s \<and> traffic_cars s' = traffic_cars s"

text \<open>The three handle variables are assigned (possibly None).\<close>

definition bound_locals :: "state \<Rightarrow> bool" where
  "bound_locals s \<longleftrightarrow> vehicle s \<noteq> Unbound \<and> camera s \<noteq> Unbound \<and> bus s \<noteq> Unbound"

definition bound_kept :: "state \<Rightarrow> state \<Rightarrow> bool" where
  "bound_kept s s' \<longleftrightarrow>
     (vehicle s \<noteq> Unbound \<longrightarrow> vehicle s' \<noteq> Unbound)
     \<and> (camera s \<noteq> Unbound \<longrightarrow> camera s' \<noteq> Unbound)
     \<and> (bus s \<noteq> Unbound \<longrightarrow> bus s' \<noteq> Unbound)"

text \<open>A release call that raised.\<close>

fun release_raised :: "entry \<Rightarrow> bool" where
  "release_raised (Destroy h (Inl e)) = True"
| "release_raised e = False"

text \<open>
  What the teardown has done when it stops, given the handles \<open>hs\<close> in the order of the
  \<^verbatim>\<open>finally\<close> block: \<open>new\<close> holds release calls only, for the first \<open>n\<close> handles in
  that order; all of them when no release raised, whatever the booleans the releases
  returned; no call before the last one raised; the teardown ends with an exception
  exactly when a release raised, and then that release is the last call made and the
  exception is the one it raised.
\<close>

definition teardown_post :: "handle list \<Rightarrow> error option \<Rightarrow> entry list \<Rightarrow> bool" where
  "teardown_post hs err new \<longleftrightarrow>
     (\<exists>n. n \<le> length hs \<and> released new = take n hs \<and> acquired new = []
        \<and> list_all teardown_entry new
        \<and> \<not> list_ex release_raised (butlast new)
        \<and> (err = None \<longleftrightarrow> \<not> list_ex release_raised new)
        \<and> (err = None \<longrightarrow> n = length hs)
        \<and> (\<forall>e. err = Some e \<longrightarrow> 0 < n \<and> last new = Destroy (hs ! (n - 1)) (Inl e)))"

text \<open>The order in which the \<^verbatim>\<open>finally\<close> block of each script releases what the locals
  hold: camera, reference vehicle, marker (bus), traffic cars.\<close>

definition release_order_basicEgent :: "state \<Rightarrow> handle list" where
  "release_order_basicEgent s =
     holds (camera s) @ holds (vehicle s) @ holds (bus s) @ traffic_cars s"

definition release_order_addingTraffic :: "state \<Rightarrow> handle list" where
  "release_order_addingTraffic s = holds (camera s) @ holds (vehicle s) @ traffic_cars s"

section \<open>Properties of the frame decoder\<close>

lemma upt4: "[0..<4] = [0, Suc 0, 2, 3]"
  by (simp add: upt_rec)

lemma offset_bound:
  assumes "i < h" "j < w" "k < 4"
  shows "offset w 4 i j k < w * h * 4"
proof -
  have "i * w + j < i * w + w" using assms by simp
  also have "\<dots> = Suc i * w" by simp
  also have "\<dots> \<le> h * w" using assms by (intro mult_le_mono1) simp
  finally have "Suc (i * w + j) \<le> w * h" by (simp add: mult.commute)
  then have "Suc (i * w + j) * 4 \<le> w * h * 4" by (rule mult_le_mono1)
  moreover have "offset w 4 i j k < Suc (i * w + j) * 4"
    using assms(3) by (simp add: offset_def)
  ultimately show ?thesis by (rule less_le_trans [rotated])
qed

lemma offset_mod: "k < 4 \<Longrightarrow> offset w 4 i j k mod 4 = k"
  unfolding offset_def by (metis mod_less mod_mult_self3)

lemma constant_buffer_length: "length (constant_buffer n b g r a) = n * 4"
  by (induction n) (simp_all add: constant_buffer_def)

lemma constant_buffer_Suc:
  "constant_buffer (Suc n) b g r a = [b, g, r, a] @ constant_buffer n b g r a"
  by (simp add: constant_buffer_def)

lemma quad_nth: "m < 4 \<Longrightarrow> (b # g # r # a # rest) ! m = [b, g, r, a] ! m"
proof -
  assume "m < 4"
  then have "m = 0 \<or> m = 1 \<or> m = 2 \<or> m = 3" by arith
  then show ?thesis by (elim disjE) (simp_all add: numeral_2_eq_2 numeral_3_eq_3)
qed

lemma constant_buffer_nth_mod:
  "m < n * 4 \<Longrightarrow> constant_buffer n b g r a ! m = [b, g, r, a] ! (m mod 4)"
proof (induction n arbitrary: m)
  case 0
  then show ?case by simp
next
  case (Suc n)
  show ?case
  proof (cases "m < 4")
    case True
    have "constant_buffer (Suc n) b g r a = b # g # r # a # constant_buffer n b g r a"
      by (simp add: constant_buffer_Suc)
    moreover have "m mod 4 = m" using True by simp
    ultimately show ?thesis using quad_nth [OF True] by (simp only:)
  next
    case False
    then have lt: "m - 4 < n * 4"
      using Suc.prems by simp
    have md: "(m - 4) mod 4 = m mod 4"
      using False le_mod_geq [of 4 m] by simp
    have len4: "length [b, g, r, a] = 4" by simp
    have "constant_buffer (Suc n) b g r a ! m = constant_buffer n b g r a ! (m - 4)"
      using False by (simp only: constant_buffer_Suc nth_append len4 if_False)
    also have "\<dots> = [b, g, r, a] ! (m mod 4)"
      using Suc.IH [OF lt] md by simp
    finally show ?thesis .
  qed
qed

lemma take3: "take 3 [x0, x1, x2, x3] = [x0, x1, x2]"
  by (simp add: numeral_3_eq_3)

lemma decoder_ok:
  assumes "length (raw_data img) = width img * height img * 4"
  shows "carla_image_to_pygame img =
     Inr (map (\<lambda>i. map (\<lambda>j. [raw_data img ! offset (width img) 4 i j 2,
                             raw_data img ! offset (width img) 4 i j 1,
                             raw_data img ! offset (width img) 4 i j 0])
                   [0..<width img]) [0..<height img])"
proof -
  have "length (raw_data img) = height img * width img * 4"
    using assms by (simp add: mult.commute)
  then show ?thesis
    by (simp add: carla_image_to_pygame_def reshape_def frombuffer_def first3_def
      reverse_channels_def upt4 take3 Let_def o_def del: upt_Suc)
qed

lemma decoder_constant:
  assumes "raw_data img = constant_buffer (width img * height img) b g r a"
  shows "carla_image_to_pygame img = Inr (replicate (height img) (replicate (width img) [r, g, b]))"
proof -
  let ?w = "width img" and ?h = "height img"
  have len: "length (raw_data img) = ?w * ?h * 4"
    by (simp only: assms constant_buffer_length)
  have px: "raw_data img ! offset ?w 4 i j k = [b, g, r, a] ! k"
    if "i < ?h" "j < ?w" "k < 4" for i j k
    using constant_buffer_nth_mod [OF offset_bound [OF that], of b g r a] offset_mod [OF that(3)]
    by (simp only: assms)
  have px3: "[raw_data img ! offset ?w 4 i j 2, raw_data img ! offset ?w 4 i j 1,
              raw_data img ! offset ?w 4 i j 0] = [r, g, b]"
    if "i < ?h" "j < ?w" for i j
    using px [OF that, of 2] px [OF that, of 1] px [OF that, of 0]
    by (simp add: numeral_2_eq_2)
  have "map (\<lambda>i. map (\<lambda>j. [raw_data img ! offset ?w 4 i j 2, raw_data img ! offset ?w 4 i j 1,
              raw_data img ! offset ?w 4 i j 0]) [0..<?w]) [0..<?h]
        = map (\<lambda>i. map (\<lambda>j. [r, g, b]) [0..<?w]) [0..<?h]"
    by (intro map_cong refl) (simp del: One_nat_def add: px3)
  also have "\<dots> = replicate ?h (replicate ?w [r, g, b])"
    by (simp add: map_replicate_const)
  finally show ?thesis using decoder_ok [OF len] by (simp only:)
qed

lemma decoder_error_iff:
  "carla_image_to_pygame img = Inl ValueError \<longleftrightarrow>
   length (raw_data img) \<noteq> width img * height img * 4"
  by (auto simp add: carla_image_to_pygame_def reshape_def frombuffer_def Let_def mult.commute)

lemma decoder_error_only:
  "carla_image_to_pygame img = Inl e \<Longrightarrow> e = ValueError"
  by (auto simp add: carla_image_to_pygame_def reshape_def frombuffer_def Let_def split: if_splits)

text \<open>
  C2. For every buffer of size width * height * 4 the frame decoder returns an image of
  height rows with width pixels each (width * height pixels in all), every pixel with
  exactly 3 channels; and when the buffer is one constant B,G,R,A quadruple repeated,
  every pixel of the result is the constant R,G,B.
\<close>

theorem C2_decoder_shape_and_constant:
  assumes "length (raw_data img) = width img * height img * 4"
  shows "\<exists>out. carla_image_to_pygame img = Inr out
           \<and> length out = height img
           \<and> (\<forall>row \<in> set out. length row = width img \<and> (\<forall>px \<in> set row. length px = 3))
           \<and> length (concat out) = width img * height img
           \<and> (\<forall>b g r a. raw_data img = constant_buffer (width img * height img) b g r a
                \<longrightarrow> out = replicate (height img) (replicate (width img) [r, g, b]))"
proof -
  define out where "out = map (\<lambda>i. map (\<lambda>j. [raw_data img ! offset (width img) 4 i j 2,
                             raw_data img ! offset (width img) 4 i j 1,
                             raw_data img ! offset (width img) 4 i j 0])
                   [0..<width img]) [0..<height img]"
  have eq: "carla_image_to_pygame img = Inr out"
    unfolding out_def by (rule decoder_ok [OF assms])
  have len: "length out = height img" by (simp add: out_def)
  have rows: "\<forall>row \<in> set out. length row = width img \<and> (\<forall>px \<in> set row. length px = 3)"
    unfolding out_def by auto
  have "map length out = replicate (height img) (width img)"
    unfolding out_def by (simp add: map_replicate_const o_def)
  then have total: "length (concat out) = width img * height img"
    by (simp add: length_concat sum_list_replicate mult.commute)
  have const: "out = replicate (height img) (replicate (width img) [r, g, b])"
    if "raw_data img = constant_buffer (width img * height img) b g r a" for b g r a
    using decoder_constant [OF that] eq by simp
  from eq len rows total const show ?thesis by blast
qed

theorem C2_decoder_witness:
  "carla_image_to_pygame \<lparr>raw_data = [1, 2, 3, 4, 1, 2, 3, 4], width = 2, height = 1\<rparr>
     = Inr [[[3, 2, 1], [3, 2, 1]]]"
proof -
  let ?img = "\<lparr>raw_data = [1, 2, 3, 4, 1, 2, 3, 4], width = 2, height = 1\<rparr> :: image"
  have h: "length (raw_data ?img) = width ?img * height ?img * 4" by simp
  have c: "raw_data ?img = constant_buffer (width ?img * height ?img) 1 2 3 4"
    by (simp add: constant_buffer_def numeral_2_eq_2)
  from C2_decoder_shape_and_constant [OF h] c
  have "carla_image_to_pygame ?img = Inr (replicate (height ?img) (replicate (width ?img) [3, 2, 1]))"
    by blast
  then show ?thesis by (simp add: numeral_2_eq_2)
qed

section \<open>Properties of the session\<close>

lemma deliver_last: "fs \<noteq> [] \<Longrightarrow> deliver fs slot = Some (last fs)"
proof (induction fs arbitrary: slot)
  case Nil
  then show ?case by simp
next
  case (Cons f fs)
  show ?case
  proof (cases fs)
    case Nil
    then show ?thesis by (simp add: process_image_def)
  next
    case (Cons g gs)
    then show ?thesis using Cons.IH by simp
  qed
qed

text \<open>
  C8. After the callback has been invoked for the frames F1 .. FN in this order (N at least
  1), the latest-frame slot holds FN, whatever it held before; the display loop, which
  reads the slot after these deliveries, finds FN there.
\<close>

theorem C8_latest_frame_is_last:
  assumes "fs \<noteq> []"
  shows "deliver fs slot = Some (last fs)
         \<and> (frames sim k = fs \<longrightarrow> latest_image (snd (render sim k s)) = Some (last fs))"
proof -
  have a: "deliver fs slot = Some (last fs)" for slot using assms by (rule deliver_last)
  have "latest_image (snd (render sim k s)) = Some (last fs)" if "frames sim k = fs"
    using that a [of "latest_image s"]
    by (simp add: render_def Let_def record_call_def split: sum.splits if_splits)
  with a show ?thesis by simp
qed

text \<open>
  C9. Called with a requested count of at least 1 when the map has no spawn point, the
  spawner raises ZeroDivisionError and returns no list; the log is unchanged, so no
  creation request was made. This holds for both scripts (any choice of blueprint).
\<close>

theorem C9_empty_pose_list_raises:
  assumes "1 \<le> num_cars" and "get_spawn_points sim tr = Inr []"
  shows "spawn_traffic_cars sim pick num_cars tr = (Inl ZeroDivisionError, tr)
         \<and> requested_poses (snd (spawn_traffic_cars sim pick num_cars tr)) = requested_poses tr"
proof -
  from assms(1) have "0 < nat num_cars" by simp
  then have "[0..<nat num_cars] = 0 # [Suc 0..<nat num_cars]" by (simp add: upt_conv_Cons)
  with assms(2) have "spawn_traffic_cars sim pick num_cars tr = (Inl ZeroDivisionError, tr)"
    by (simp add: spawn_traffic_cars_def)
  then show ?thesis by simp
qed

lemma requested_poses_append [simp]:
  "requested_poses (a @ b) = requested_poses a @ requested_poses b"
  by (simp add: requested_poses_def)

lemma created_append [simp]: "created (a @ b) = created a @ created b"
  by (simp add: created_def)

lemma autopilot_enabled_append [simp]:
  "autopilot_enabled (a @ b) = autopilot_enabled a @ autopilot_enabled b"
  by (simp add: autopilot_enabled_def)

lemma log_readers_Nil [simp]:
  "requested_poses [] = []" "created [] = []" "autopilot_enabled [] = []"
  by (simp_all add: requested_poses_def created_def autopilot_enabled_def)

lemma log_readers_Cons [simp]:
  "requested_poses (e # tr) = requested_pose e @ requested_poses tr"
  "created (e # tr) = created_by e @ created tr"
  "autopilot_enabled (e # tr) = autopilot_by e @ autopilot_enabled tr"
  by (simp_all add: requested_poses_def created_def autopilot_enabled_def)

lemma spawn_loop_postI:
  "tr' = tr @ new \<Longrightarrow> n \<le> length ixs
   \<Longrightarrow> requested_poses new = map (\<lambda>i. sp ! (i mod length sp)) (take n ixs)
   \<Longrightarrow> list_all spawner_entry new
   \<Longrightarrow> (\<And>cs. res = Inr cs \<Longrightarrow>
              n = length ixs \<and> cs = cars @ created new \<and> autopilot_enabled new = created new)
   \<Longrightarrow> spawn_loop_post sp ixs cars tr res tr'"
  unfolding spawn_loop_post_def by blast

lemma spawn_loop_post_step:
  assumes "spawn_loop_post sp rest (cars @ created pre) (tr @ pre) res tr'"
    and "requested_poses pre = [sp ! (i mod length sp)]"
    and "autopilot_enabled pre = created pre"
    and "list_all spawner_entry pre"
  shows "spawn_loop_post sp (i # rest) cars tr res tr'"
proof -
  from assms(1) obtain new n where h: "tr' = (tr @ pre) @ new" "n \<le> length rest"
    "requested_poses new = map (\<lambda>i. sp ! (i mod length sp)) (take n rest)"
    "list_all spawner_entry new"
    "\<And>cs. res = Inr cs \<Longrightarrow>
        n = length rest \<and> cs = (cars @ created pre) @ created new \<and> autopilot_enabled new = created new"
    unfolding spawn_loop_post_def by blast
  show ?thesis
  proof (rule spawn_loop_postI [where new = "pre @ new" and n = "Suc n"])
    show "tr' = tr @ pre @ new" using h(1) by simp
    show "Suc n \<le> length (i # rest)" using h(2) by simp
    show "requested_poses (pre @ new) = map (\<lambda>i. sp ! (i mod length sp)) (take (Suc n) (i # rest))"
      using h(3) assms(2) by simp
    show "list_all spawner_entry (pre @ new)" using h(4) assms(4) by simp
    show "Suc n = length (i # rest) \<and> cs = cars @ created (pre @ new)
          \<and> autopilot_enabled (pre @ new) = created (pre @ new)" if "res = Inr cs" for cs
      using h(5) [OF that] assms(3) by simp
  qed
qed

lemma spawn_loop_trace:
  assumes "sp \<noteq> []"
  shows "spawn_loop sim pick sp ixs cars tr = (res, tr') \<Longrightarrow> spawn_loop_post sp ixs cars tr res tr'"
proof (induction ixs arbitrary: cars tr)
  case Nil
  then have "res = Inr cars" "tr' = tr" by simp_all
  then show ?case
    by (intro spawn_loop_postI [where new = "[]" and n = 0]) simp_all
next
  case (Cons i rest)
  let ?p = "sp ! (i mod length sp)" and ?bp = "pick tr"
  let ?r = "try_spawn_actor sim tr ?bp ?p"
  let ?e1 = "TrySpawnActor ?bp ?p ?r"
  show ?case
  proof (cases "find_blueprint sim tr ?bp")
    case (Some e)
    with Cons.prems assms have "res = Inl e" "tr' = tr" by (simp_all add: Let_def)
    then show ?thesis
      by (intro spawn_loop_postI [where new = "[]" and n = 0]) simp_all
  next
    case None
    note found = this
    show ?thesis
    proof (cases ?r)
      case (Inl e)
      with Cons.prems assms found have "res = Inl e" "tr' = tr @ [?e1]" by (simp_all add: Let_def)
      then show ?thesis
        by (intro spawn_loop_postI [where new = "[?e1]" and n = 1]) simp_all
    next
      case (Inr v)
      note spawned = this
      show ?thesis
      proof (cases v)
        case None
        with Cons.prems assms found spawned
        have "spawn_loop sim pick sp rest cars (tr @ [?e1]) = (res, tr')" by (simp add: Let_def)
        from Cons.IH [OF this]
        have "spawn_loop_post sp rest (cars @ created [?e1]) (tr @ [?e1]) res tr'"
          using spawned None by simp
        then show ?thesis
          by (rule spawn_loop_post_step) (simp_all add: spawned None)
      next
        case (Some h)
        let ?r2 = "send sim (tr @ [?e1]) (SetAutopilot h True)"
        let ?e2 = "Command (SetAutopilot h True) ?r2"
        show ?thesis
        proof (cases ?r2)
          case None
          with Cons.prems assms found spawned Some
          have "spawn_loop sim pick sp rest (cars @ [h]) (tr @ [?e1, ?e2]) = (res, tr')"
            by (simp add: Let_def)
          from Cons.IH [OF this]
          have post: "spawn_loop_post sp rest (cars @ created [?e1, ?e2]) (tr @ [?e1, ?e2]) res tr'"
            using spawned Some None by simp
          have ap: "autopilot_by ?e2 = [h]" using None by simp
          show ?thesis
            by (rule spawn_loop_post_step [OF post]) (simp_all add: ap, simp_all add: spawned Some)
        next
          case (Some e)
          with Cons.prems assms found spawned \<open>v = Some h\<close>
          have r: "res = Inl e" "tr' = tr @ [?e1, ?e2]" by (simp_all add: Let_def)
          show ?thesis
            by (rule spawn_loop_postI [where new = "[?e1, ?e2]" and n = 1]) (simp_all add: r)
        qed
      qed
    qed
  qed
qed

lemma spawn_traffic_cars_trace:
  assumes "spawn_traffic_cars sim pick num_cars tr = (res, tr')"
    and "get_spawn_points sim tr = Inr poses" and "poses \<noteq> []"
  shows "spawn_loop_post poses [0..<nat num_cars] [] tr res tr'"
  using assms spawn_loop_trace [OF assms(3), of sim pick "[0..<nat num_cars]" "[]" tr res tr']
  by (simp add: spawn_traffic_cars_def)

text \<open>
  C6. With a non-empty pose list of length M, the creation requests of the spawner use the
  poses cyclically: request i uses pose i mod M, so requests i and i + M use the same
  pose; when the spawner returns, it has made one request for each of the N units.
\<close>

theorem C6_poses_assigned_cyclically:
  assumes "spawn_traffic_cars sim pick num_cars tr = (res, tr')"
    and "get_spawn_points sim tr = Inr poses" and "poses \<noteq> []"
  shows "\<exists>new. requested_poses tr' = requested_poses tr @ new
           \<and> length new \<le> nat num_cars
           \<and> (\<forall>cars. res = Inr cars \<longrightarrow> length new = nat num_cars)
           \<and> (\<forall>i. i < length new \<longrightarrow> new ! i = poses ! (i mod length poses))
           \<and> (\<forall>i. i + length poses < length new \<longrightarrow> new ! i = new ! (i + length poses))"
proof -
  let ?f = "\<lambda>i. poses ! (i mod length poses)"
  from spawn_traffic_cars_trace [OF assms] obtain ents n where h: "tr' = tr @ ents"
    "n \<le> nat num_cars" "requested_poses ents = map ?f (take n [0..<nat num_cars])"
    "\<And>cs. res = Inr cs \<Longrightarrow> n = nat num_cars"
    unfolding spawn_loop_post_def by auto
  have t: "take n [0..<nat num_cars] = [0..<n]" using h(2) by (simp add: take_upt)
  let ?new = "map ?f [0..<n]"
  have 1: "requested_poses tr' = requested_poses tr @ ?new" using h(1,3) t by simp
  have 2: "length ?new \<le> nat num_cars" using h(2) by simp
  have 3: "\<forall>cars. res = Inr cars \<longrightarrow> length ?new = nat num_cars" using h(4) by simp
  have 4: "\<forall>i. i < length ?new \<longrightarrow> ?new ! i = ?f i" by simp
  have 5: "\<forall>i. i + length poses < length ?new \<longrightarrow> ?new ! i = ?new ! (i + length poses)"
    by simp
  from 1 2 3 4 5 show ?thesis by blast
qed







lemma then_do_cases:
  assumes "then_do r f = (fl, s')"
  obtains (continued) s where "r = (Continue, s)" "f s = (fl, s')"
        | (stopped) "r = (fl, s')" "fl \<noteq> Continue"
  using assms by (cases r; cases "fst r") (auto simp: then_do_def)

lemma then_do_Continue [simp]: "then_do (Continue, s) f = f s"
  by (simp add: then_do_def)

lemma then_do_stop [simp]:
  "then_do (Return, s) f = (Return, s)"
  "then_do (Raise e, s) f = (Raise e, s)"
  "then_do (OutOfFuel, s) f = (OutOfFuel, s)"
  by (simp_all add: then_do_def)

subsection \<open>Traffic lights\<close>

lemma lights_loop_postI:
  "tr' = tr @ new \<Longrightarrow> list_all light_entry new
   \<Longrightarrow> (\<And>ls. res = Inr ls \<Longrightarrow> ls = acc @ lights \<and> new = concat (map light_commands lights))
   \<Longrightarrow> lights_loop_post lights acc tr res tr'"
  unfolding lights_loop_post_def by blast

lemma lights_loop_trace:
  "lights_loop sim lights acc tr = (res, tr') \<Longrightarrow> lights_loop_post lights acc tr res tr'"
proof (induction lights arbitrary: acc tr)
  case Nil
  then have "res = Inr acc" "tr' = tr" by simp_all
  then show ?case by (intro lights_loop_postI [where new = "[]"]) simp_all
next
  case (Cons light rest)
  let ?r1 = "send sim tr (SetState light Red)"
  let ?e1 = "Command (SetState light Red) ?r1"
  let ?r2 = "send sim (tr @ [?e1]) (SetGreenTime light 5)"
  let ?e2 = "Command (SetGreenTime light 5) ?r2"
  let ?r3 = "send sim (tr @ [?e1, ?e2]) (SetRedTime light 5)"
  let ?e3 = "Command (SetRedTime light 5) ?r3"
  show ?case
  proof (cases ?r1)
    case (Some e)
    with Cons.prems have r: "res = Inl e" "tr' = tr @ [?e1]" by (simp_all add: Let_def)
    show ?thesis by (rule lights_loop_postI [where new = "[?e1]"]) (simp_all add: r)
  next
    case None
    note r1 = this
    show ?thesis
    proof (cases ?r2)
      case (Some e)
      with Cons.prems r1 have r: "res = Inl e" "tr' = tr @ [?e1, ?e2]" by (simp_all add: Let_def)
      show ?thesis by (rule lights_loop_postI [where new = "[?e1, ?e2]"]) (simp_all add: r)
    next
      case None
      note r2 = this
      show ?thesis
      proof (cases ?r3)
        case (Some e)
        with Cons.prems r1 r2 have r: "res = Inl e" "tr' = tr @ [?e1, ?e2, ?e3]"
          by (simp_all add: Let_def)
        show ?thesis by (rule lights_loop_postI [where new = "[?e1, ?e2, ?e3]"]) (simp_all add: r)
      next
        case None
        note r3 = this
        show ?thesis
        proof (cases "get_transform sim (tr @ [?e1, ?e2, ?e3]) light")
          case (Some e)
          with Cons.prems r1 r2 r3 have r: "res = Inl e" "tr' = tr @ [?e1, ?e2, ?e3]"
            by (simp_all add: Let_def)
          show ?thesis by (rule lights_loop_postI [where new = "[?e1, ?e2, ?e3]"]) (simp_all add: r)
        next
          case None
          with Cons.prems r1 r2 r3
          have "lights_loop sim rest (acc @ [light]) (tr @ [?e1, ?e2, ?e3]) = (res, tr')"
            by (simp add: Let_def)
          from Cons.IH [OF this] obtain new where h: "tr' = (tr @ [?e1, ?e2, ?e3]) @ new"
            "list_all light_entry new"
            "\<And>ls. res = Inr ls \<Longrightarrow> ls = (acc @ [light]) @ rest \<and> new = concat (map light_commands rest)"
            unfolding lights_loop_post_def by blast
          have cmds: "[?e1, ?e2, ?e3] = light_commands light"
            using r1 r2 r3 by (simp add: light_commands_def)
          show ?thesis
          proof (rule lights_loop_postI [where new = "[?e1, ?e2, ?e3] @ new"])
            show "tr' = tr @ [?e1, ?e2, ?e3] @ new" using h(1) by simp
            show "list_all light_entry ([?e1, ?e2, ?e3] @ new)" using h(2) by simp
            show "ls = acc @ light # rest \<and> [?e1, ?e2, ?e3] @ new = concat (map light_commands (light # rest))"
              if "res = Inr ls" for ls
              using h(3) [OF that] cmds by simp
          qed
        qed
      qed
    qed
  qed
qed

lemma setup_traffic_lights_trace:
  assumes "setup_traffic_lights sim tr = (res, tr')"
  shows "\<exists>new. tr' = tr @ new \<and> list_all light_entry new
           \<and> (\<forall>ls. res = Inr ls \<longrightarrow>
                 get_traffic_lights sim tr = Inr ls \<and> new = concat (map light_commands ls))"
proof (cases "get_traffic_lights sim tr")
  case (Inl e)
  with assms have "tr' = tr" "res = Inl e" by (simp_all add: setup_traffic_lights_def)
  then show ?thesis by simp
next
  case (Inr lights)
  with assms have "lights_loop sim lights [] tr = (res, tr')"
    by (simp add: setup_traffic_lights_def)
  from lights_loop_trace [OF this] Inr show ?thesis
    unfolding lights_loop_post_def by auto
qed

lemma only_logs_refl [simp]: "only_logs P s s"
  by (simp add: only_logs_def)

lemma only_logs_trans:
  assumes "only_logs P s s1" and "only_logs P s1 s2"
  shows "only_logs P s s2"
proof -
  from assms(1) obtain a where a: "trace s1 = trace s @ a" "list_all P a"
    unfolding only_logs_def by blast
  from assms(2) obtain b where b: "trace s2 = trace s1 @ b" "list_all P b"
    unfolding only_logs_def by blast
  have "trace s2 = trace s @ (a @ b)" "list_all P (a @ b)" using a b by simp_all
  then have "\<exists>new. trace s2 = trace s @ new \<and> list_all P new" by blast
  with assms show ?thesis unfolding only_logs_def by simp
qed

lemma only_logs_mono: "only_logs P s s' \<Longrightarrow> (\<And>e. P e \<Longrightarrow> Q e) \<Longrightarrow> only_logs Q s s'"
  unfolding only_logs_def by (auto simp: list_all_iff)

lemma only_logs_record_call: "P e \<Longrightarrow> only_logs P s (record_call e s)"
  by (simp add: only_logs_def record_call_def)

lemma only_logs_latest_image [simp]:
  "only_logs P s (s'\<lparr>latest_image := x\<rparr>) = only_logs P s s'"
  "only_logs P (s\<lparr>latest_image := x\<rparr>) s' = only_logs P s s'"
  by (simp_all add: only_logs_def)

lemma send_command_logs:
  "send_command sim c s = (fl, s') \<Longrightarrow> P (Command c (send sim (trace s) c)) \<Longrightarrow> only_logs P s s'"
  by (auto simp: send_command_def Let_def only_logs_def record_call_def split: option.splits)


lemma agent_step_logs:
  assumes "agent_step sim s = (fl, s')"
  shows "only_logs render_or_control s s'"
proof -
  let ?r = "run_step sim (trace s)"
  let ?s1 = "record_call (RunStep ?r) s"
  have s1: "only_logs render_or_control s ?s1" by (rule only_logs_record_call) simp
  show ?thesis
  proof (cases ?r)
    case (Inl e)
    with assms have "s' = ?s1" by (simp add: agent_step_def Let_def)
    with s1 show ?thesis by simp
  next
    case (Inr ctl)
    show ?thesis
    proof (cases "deref (vehicle ?s1)")
      case (Inl e)
      with assms Inr have "s' = ?s1" by (simp add: agent_step_def Let_def)
      with s1 show ?thesis by simp
    next
      case (Inr veh)
      with assms \<open>?r = Inr ctl\<close> have "send_command sim (ApplyControl veh ctl) ?s1 = (fl, s')"
        by (simp add: agent_step_def Let_def)
      then have "only_logs render_or_control ?s1 s'" by (rule send_command_logs) simp
      with s1 show ?thesis by (rule only_logs_trans)
    qed
  qed
qed

lemma render_logs:
  assumes "render sim k s = (fl, s')"
  shows "only_logs render_or_control s s'"
  using assms
  by (auto simp: render_def Let_def only_logs_def record_call_def
      split: option.splits sum.splits if_splits)

lemma display_loop_logs:
  "display_loop sim agent fuel k s = (fl, s') \<Longrightarrow> only_logs render_or_control s s'"
proof (induction fuel arbitrary: k s)
  case 0
  then show ?case by simp
next
  case (Suc fuel)
  show ?case
  proof (cases "quit_seen (events sim k)")
    case True
    with Suc.prems show ?thesis by simp
  next
    case False
    let ?a = "if agent then agent_step sim s else (Continue, s)"
    from Suc.prems False
    have run: "then_do ?a (\<lambda>s. then_do (render sim k s)
                 (\<lambda>s. display_loop sim agent fuel (Suc k) (record_call Flip s))) = (fl, s')"
      by simp
    have a: "only_logs render_or_control s (snd ?a)"
      using agent_step_logs [of sim s "fst (agent_step sim s)" "snd (agent_step sim s)"] by simp
    from run show ?thesis
    proof (cases rule: then_do_cases)
      case stopped
      with a show ?thesis by simp
    next
      case (continued s1)
      with a have s1: "only_logs render_or_control s s1" by simp
      from continued(2) show ?thesis
      proof (cases rule: then_do_cases)
        case stopped
        then have "only_logs render_or_control s1 s'" by (intro render_logs)
        with s1 show ?thesis by (rule only_logs_trans)
      next
        case (continued s2)
        then have "only_logs render_or_control s1 s2" by (intro render_logs)
        moreover have "only_logs render_or_control s2 (record_call Flip s2)"
          by (rule only_logs_record_call) simp
        moreover have "only_logs render_or_control (record_call Flip s2) s'"
          using Suc.IH continued(2) by blast
        ultimately show ?thesis using s1 by (blast intro: only_logs_trans)
      qed
    qed
  qed
qed

lemma display_loop_flow:
  "display_loop sim agent fuel k s = (fl, s') \<Longrightarrow> fl \<noteq> Continue"
proof (induction fuel arbitrary: k s)
  case 0
  then show ?case by auto
next
  case (Suc fuel)
  show ?case
  proof (cases "quit_seen (events sim k)")
    case True
    with Suc.prems show ?thesis by auto
  next
    case False
    with Suc.prems
    have run: "then_do (if agent then agent_step sim s else (Continue, s)) (\<lambda>s. then_do (render sim k s)
                 (\<lambda>s. display_loop sim agent fuel (Suc k) (record_call Flip s))) = (fl, s')"
      by simp
    then show ?thesis
    proof (cases rule: then_do_cases)
      case stopped
      then show ?thesis by simp
    next
      case (continued s1)
      from continued(2) show ?thesis
      proof (cases rule: then_do_cases)
        case stopped
        then show ?thesis by simp
      next
        case (continued s2)
        then show ?thesis using Suc.IH by blast
      qed
    qed
  qed
qed



text \<open>Once a quit event is observed the loop stops where it is.\<close>

lemma display_loop_quit:
  "quit_seen (events sim k) \<Longrightarrow> display_loop sim agent (Suc n) k s = (Return, s)"
  by simp


subsection \<open>Reading handles from the log\<close>

lemma acquired_append [simp]: "acquired (a @ b) = acquired a @ acquired b"
  by (simp add: acquired_def)

lemma released_append [simp]: "released (a @ b) = released a @ released b"
  by (simp add: released_def)

lemma acquired_released_Nil [simp]: "acquired [] = []" "released [] = []"
  by (simp_all add: acquired_def released_def)

lemma acquired_released_Cons [simp]:
  "acquired (e # tr) = acquired_by e @ acquired tr"
  "released (e # tr) = released_by e @ released tr"
  by (simp_all add: acquired_def released_def)

lemma neutral_entries: "list_all neutral new \<Longrightarrow> acquired new = [] \<and> released new = []"
  by (induction new) (simp_all add: neutral_def)

lemma spawner_entries:
  "list_all spawner_entry new \<Longrightarrow> acquired new = created new \<and> released new = []"
proof (induction new)
  case Nil
  then show ?case by simp
next
  case (Cons e new)
  then have "spawner_entry e" by simp
  then have "acquired_by e = created_by e \<and> released_by e = []"
    by (cases e rule: created_by.cases) simp_all
  with Cons show ?case by simp
qed

lemma light_entry_neutral: "light_entry e \<Longrightarrow> neutral e"
  by (cases e rule: light_entry.cases) (simp_all add: neutral_def)

lemma render_or_control_neutral: "render_or_control e \<Longrightarrow> neutral e"
  by (cases e rule: render_or_control.cases) (simp_all add: neutral_def)

lemma holds_simps [simp]:
  "holds Unbound = []" "holds (Bound None) = []" "holds (Bound (Some h)) = [h]"
  by (simp_all add: holds_def)

lemma tidy_only_logs:
  assumes "only_logs neutral s s'" and "tidy s"
  shows "tidy s'"
proof -
  from assms(1) obtain new where "trace s' = trace s @ new" "list_all neutral new"
    and "held s' = held s"
    unfolding only_logs_def held_def by auto
  with assms(2) neutral_entries [of new] show ?thesis by (simp add: tidy_def)
qed

subsection \<open>The stages of the session, one by one\<close>

lemma connect_stage_state: "connect_stage sim s = (fl, s') \<Longrightarrow> s' = s"
  by (auto simp: connect_stage_def split: option.splits)

lemma spawn_reference_vehicle_tidy:
  assumes "spawn_reference_vehicle sim p s = (fl, s')" and "tidy s" and "holds (vehicle s) = []"
  shows "tidy s' \<and> camera s' = camera s \<and> keeps_bus_and_traffic s s'
         \<and> (vehicle s \<noteq> Unbound \<longrightarrow> vehicle s' \<noteq> Unbound)"
proof (cases "try_spawn_actor sim (trace s) ''vehicle.tesla.model3'' p")
  case (Inl e)
  with assms show ?thesis
    by (auto simp: spawn_reference_vehicle_def Let_def record_call_def tidy_def held_def
        keeps_bus_and_traffic_def)
next
  case (Inr v)
  with assms show ?thesis
    by (cases v) (auto simp: spawn_reference_vehicle_def Let_def record_call_def tidy_def held_def
        keeps_bus_and_traffic_def)
qed

lemma attach_camera_tidy:
  assumes "attach_camera sim ct s = (fl, s')" and "tidy s" and "holds (camera s) = []"
  shows "tidy s' \<and> vehicle s' = vehicle s \<and> keeps_bus_and_traffic s s'
         \<and> (camera s \<noteq> Unbound \<longrightarrow> camera s' \<noteq> Unbound)"
proof (cases "find_blueprint sim (trace s) ''sensor.camera.rgb''")
  case (Some e)
  with assms show ?thesis by (simp add: attach_camera_def keeps_bus_and_traffic_def)
next
  case None
  note found = this
  show ?thesis
  proof (cases "read_var (vehicle s)")
    case (Inl e)
    with assms found show ?thesis by (simp add: attach_camera_def keeps_bus_and_traffic_def)
  next
    case (Inr a)
    note attach = this
    let ?r = "spawn_actor sim (trace s) ''sensor.camera.rgb'' ct a"
    let ?s1 = "record_call (SpawnActor ''sensor.camera.rgb'' ct a ?r) s"
    show ?thesis
    proof (cases ?r)
      case (Inl e)
      with assms found attach show ?thesis
        by (auto simp: attach_camera_def Let_def record_call_def tidy_def held_def
            keeps_bus_and_traffic_def)
    next
      case (Inr cam)
      let ?s2 = "?s1\<lparr>camera := Bound (Some cam), latest_image := None\<rparr>"
      from assms(1) found attach Inr have "send_command sim (Listen cam) ?s2 = (fl, s')"
        by (simp add: attach_camera_def Let_def)
      then have "only_logs neutral ?s2 s'"
        by (rule send_command_logs) (simp add: neutral_def)
      moreover have "tidy ?s2" using assms(2,3) Inr
        by (simp add: record_call_def tidy_def held_def)
      ultimately have "tidy s'" by (rule tidy_only_logs)
      moreover from \<open>only_logs neutral ?s2 s'\<close>
      have "vehicle s' = vehicle s" "keeps_bus_and_traffic s s'" "camera s' \<noteq> Unbound"
        by (simp_all add: only_logs_def record_call_def keeps_bus_and_traffic_def)
      ultimately show ?thesis by simp
    qed
  qed
qed

lemma keeps_bus_and_traffic_refl [simp]: "keeps_bus_and_traffic s s"
  by (simp add: keeps_bus_and_traffic_def)

lemma keeps_bus_and_traffic_trans:
  "keeps_bus_and_traffic s s1 \<Longrightarrow> keeps_bus_and_traffic s1 s2 \<Longrightarrow> keeps_bus_and_traffic s s2"
  by (simp add: keeps_bus_and_traffic_def)

lemma vehicle_and_camera_tidy:
  assumes run: "vehicle_and_camera sim s = (fl, s')" and "tidy s"
    and "holds (vehicle s) = []" and "holds (camera s) = []"
  shows "tidy s' \<and> keeps_bus_and_traffic s s'"
  using run unfolding vehicle_and_camera_def
proof (cases rule: then_do_cases)
  case stopped
  then show ?thesis using assms(2) connect_stage_state by fastforce
next
  case (continued s0)
  then have s0: "s0 = s" by (simp add: connect_stage_state)
  show ?thesis
  proof (cases "find_blueprint sim (trace s) ''vehicle.tesla.model3''")
    case (Some e)
    with continued(2) s0 assms(2) show ?thesis by simp
  next
    case None
    note found = this
    show ?thesis
    proof (cases "get_spawn_points sim (trace s)")
      case (Inl e)
      with continued(2) s0 found assms(2) show ?thesis by simp
    next
      case (Inr sp)
      show ?thesis
      proof (cases "sp = []")
        case True
        with continued(2) s0 found Inr assms(2) show ?thesis by simp
      next
        case False
        with continued(2) s0 found Inr
        have "then_do (spawn_reference_vehicle sim (sp ! 0) s) (attach_camera sim third_person_camera)
              = (fl, s')" by simp
        then show ?thesis
        proof (cases rule: then_do_cases)
          case stopped
          from spawn_reference_vehicle_tidy [OF stopped(1) assms(2,3)] show ?thesis by simp
        next
          case (continued s1)
          from spawn_reference_vehicle_tidy [OF continued(1) assms(2,3)]
          have s1: "tidy s1" "camera s1 = camera s" "keeps_bus_and_traffic s s1" by simp_all
          from attach_camera_tidy [OF continued(2) s1(1)] s1(2) assms(4)
          have "tidy s'" "keeps_bus_and_traffic s1 s'" by simp_all
          with s1(3) show ?thesis by (blast intro: keeps_bus_and_traffic_trans)
        qed
      qed
    qed
  qed
qed

lemma start_and_vehicle_tidy:
  assumes run: "start_and_vehicle sim s = (fl, s')" and "tidy s" and "holds (vehicle s) = []"
  shows "tidy s' \<and> camera s' = camera s \<and> keeps_bus_and_traffic s s'
         \<and> (vehicle s \<noteq> Unbound \<longrightarrow> vehicle s' \<noteq> Unbound)"
proof (cases "get_spawn_points sim (trace s)")
  case (Inl e)
  with run assms(2) show ?thesis by (simp add: start_and_vehicle_def)
next
  case (Inr sp)
  show ?thesis
  proof (cases "sp = []")
    case True
    with run Inr assms(2) show ?thesis by (simp add: start_and_vehicle_def)
  next
    case False
    let ?s1 = "s\<lparr>endpoint_location :=
                  \<lparr>loc_x = float32 sim (float_add sim (loc_x (location (sp ! 0))) 115),
                   loc_y = float32 sim (float_add sim (loc_y (location (sp ! 0))) 135),
                   loc_z = float32 sim (loc_z (location (sp ! 0)))\<rparr>\<rparr>"
    have s1: "tidy ?s1" "holds (vehicle ?s1) = []" using assms(2,3)
      by (simp_all add: tidy_def held_def)
    show ?thesis
    proof (cases "find_blueprint sim (trace s) ''vehicle.tesla.model3''")
      case (Some e)
      with run Inr False have "s' = ?s1" by (simp add: start_and_vehicle_def Let_def)
      with s1 show ?thesis by (simp add: keeps_bus_and_traffic_def)
    next
      case None
      with run Inr False have "spawn_reference_vehicle sim (sp ! 0) ?s1 = (fl, s')"
        by (simp add: start_and_vehicle_def Let_def)
      from spawn_reference_vehicle_tidy [OF this s1] show ?thesis
        by (simp add: keeps_bus_and_traffic_def)
    qed
  qed
qed

lemma spawn_endpoint_marker_tidy:
  assumes run: "spawn_endpoint_marker sim s = (fl, s')" and "tidy s" and "holds (bus s) = []"
  shows "tidy s' \<and> camera s' = camera s \<and> vehicle s' = vehicle s
         \<and> traffic_cars s' = traffic_cars s \<and> (bus s \<noteq> Unbound \<longrightarrow> bus s' \<noteq> Unbound)"
proof (cases "find_blueprint sim (trace s) ''vehicle.carlamotors.carlacola''")
  case (Some e)
  with run assms(2) show ?thesis by (simp add: spawn_endpoint_marker_def)
next
  case None
  let ?t = "\<lparr>location = endpoint_location s, rotation = \<lparr>pitch = 0, yaw = 0, roll = 0\<rparr>\<rparr>"
  show ?thesis
  proof (cases "try_spawn_actor sim (trace s) ''vehicle.carlamotors.carlacola'' ?t")
    case (Inl e)
    with run None assms(2,3) show ?thesis
      by (auto simp: spawn_endpoint_marker_def Let_def record_call_def tidy_def held_def)
  next
    case (Inr b)
    with run None assms(2,3) show ?thesis
      by (cases b) (auto simp: spawn_endpoint_marker_def Let_def record_call_def tidy_def held_def)
  qed
qed

lemma lights_stage_logs:
  assumes "lights_stage sim s = (fl, s')"
  shows "only_logs light_entry s s'"
proof -
  obtain res tr where r: "setup_traffic_lights sim (trace s) = (res, tr)"
    by (cases "setup_traffic_lights sim (trace s)") auto
  from setup_traffic_lights_trace [OF r] obtain new where
    "tr = trace s @ new" "list_all light_entry new" by blast
  moreover from assms r have "s' = s\<lparr>trace := tr\<rparr>"
    by (cases res) (auto simp: lights_stage_def)
  ultimately show ?thesis by (auto simp: only_logs_def)
qed

lemma agent_stage_logs:
  assumes "agent_stage sim s = (fl, s')"
  shows "only_logs neutral s s'"
proof (cases "deref (vehicle s)")
  case (Inl e)
  with assms show ?thesis by (simp add: agent_stage_def)
next
  case (Inr veh)
  with assms have "then_do (send_command sim (BasicAgent veh) s)
      (\<lambda>s. send_command sim (SetDestination (endpoint_location s)) s) = (fl, s')"
    by (simp add: agent_stage_def)
  then show ?thesis
  proof (cases rule: then_do_cases)
    case stopped
    then show ?thesis by (intro send_command_logs [OF stopped(1)]) (simp add: neutral_def)
  next
    case (continued s1)
    have "only_logs neutral s s1"
      by (rule send_command_logs [OF continued(1)]) (simp add: neutral_def)
    moreover have "only_logs neutral s1 s'"
      by (rule send_command_logs [OF continued(2)]) (simp add: neutral_def)
    ultimately show ?thesis by (rule only_logs_trans)
  qed
qed

lemma spawn_loop_no_poses:
  "spawn_loop sim pick [] ixs cars tr = (res, tr') \<Longrightarrow> tr' = tr \<and> (\<forall>cs. res = Inr cs \<longrightarrow> cs = cars)"
  by (cases ixs) auto

lemma spawn_traffic_cars_summary:
  assumes "spawn_traffic_cars sim pick num_cars tr = (res, tr')"
  shows "\<exists>new. tr' = tr @ new \<and> list_all spawner_entry new
           \<and> (\<forall>cars. res = Inr cars \<longrightarrow> cars = created new)"
proof (cases "get_spawn_points sim tr")
  case (Inl e)
  with assms show ?thesis by (auto simp: spawn_traffic_cars_def)
next
  case (Inr poses)
  show ?thesis
  proof (cases "poses = []")
    case True
    with assms Inr have "spawn_loop sim pick [] [0..<nat num_cars] [] tr = (res, tr')"
      by (simp add: spawn_traffic_cars_def)
    from spawn_loop_no_poses [OF this] show ?thesis by simp
  next
    case False
    from spawn_traffic_cars_trace [OF assms Inr False] show ?thesis
      unfolding spawn_loop_post_def by auto
  qed
qed

lemma traffic_stage_tidy:
  assumes run: "traffic_stage sim pick s = (fl, s')" and "tidy s" and "traffic_cars s = []"
    and keeps: "spawner_keeps_handles sim pick (Continue, s)"
  shows "tidy s' \<and> vehicle s' = vehicle s \<and> camera s' = camera s \<and> bus s' = bus s"
proof -
  obtain res tr where r: "spawn_traffic_cars sim pick 10 (trace s) = (res, tr)"
    by (cases "spawn_traffic_cars sim pick 10 (trace s)") auto
  from spawn_traffic_cars_summary [OF r] obtain new where new: "tr = trace s @ new"
    "list_all spawner_entry new" "\<And>cars. res = Inr cars \<Longrightarrow> cars = created new"
    by blast
  note ents = spawner_entries [OF new(2)]
  show ?thesis
  proof (cases res)
    case (Inl e)
    with keeps r new(1) have "created new = []"
      by (simp add: spawner_keeps_handles_def)
    moreover from run r Inl have "s' = s\<lparr>trace := tr\<rparr>" by (simp add: traffic_stage_def)
    ultimately show ?thesis using assms(2) new(1) ents by (simp add: tidy_def held_def)
  next
    case (Inr cars)
    with run r have "s' = s\<lparr>trace := tr, traffic_cars := cars\<rparr>" by (simp add: traffic_stage_def)
    with new(3) [OF Inr] assms(2,3) new(1) ents show ?thesis by (simp add: tidy_def held_def)
  qed
qed

lemma bound_kept_refl [simp]: "bound_kept s s"
  by (simp add: bound_kept_def)

lemma bound_kept_trans: "bound_kept s s1 \<Longrightarrow> bound_kept s1 s2 \<Longrightarrow> bound_kept s s2"
  by (simp add: bound_kept_def)

lemma only_logs_bound_kept: "only_logs P s s' \<Longrightarrow> bound_kept s s' \<and> bus s' = bus s"
  by (simp add: only_logs_def bound_kept_def)

lemma spawn_reference_vehicle_locals:
  "spawn_reference_vehicle sim p s = (fl, s') \<Longrightarrow> bound_kept s s' \<and> bus s' = bus s"
  by (auto simp: spawn_reference_vehicle_def Let_def record_call_def bound_kept_def
      split: sum.splits if_splits)

lemma attach_camera_locals:
  "attach_camera sim ct s = (fl, s') \<Longrightarrow> bound_kept s s' \<and> bus s' = bus s"
  by (auto simp: attach_camera_def Let_def record_call_def bound_kept_def send_command_def
      split: sum.splits option.splits)

lemma vehicle_and_camera_locals:
  assumes "vehicle_and_camera sim s = (fl, s')"
  shows "bus s' = bus s"
  using assms unfolding vehicle_and_camera_def
proof (cases rule: then_do_cases)
  case stopped
  from connect_stage_state [OF stopped(1)] show ?thesis by simp
next
  case (continued s0)
  from connect_stage_state [OF continued(1)] have s0: "s0 = s" .
  from continued(2) show ?thesis unfolding s0
    by (auto split: option.splits sum.splits if_splits elim!: then_do_cases
        dest!: spawn_reference_vehicle_locals attach_camera_locals)
qed

lemma start_and_vehicle_locals:
  "start_and_vehicle sim s = (fl, s') \<Longrightarrow> bound_kept s s'"
  by (auto simp: start_and_vehicle_def Let_def bound_kept_def
      split: sum.splits option.splits if_splits dest!: spawn_reference_vehicle_locals)

lemma spawn_endpoint_marker_locals:
  "spawn_endpoint_marker sim s = (fl, s') \<Longrightarrow> bound_kept s s'"
  by (auto simp: spawn_endpoint_marker_def Let_def record_call_def bound_kept_def
      split: sum.splits option.splits)

lemma traffic_stage_locals:
  "traffic_stage sim pick s = (fl, s') \<Longrightarrow> bound_kept s s' \<and> bus s' = bus s"
  by (auto simp: traffic_stage_def bound_kept_def split: prod.splits sum.splits)

subsection \<open>Teardown\<close>

lemma and_then_None [simp]: "and_then (None, tr) f = f tr"
  by (simp add: and_then_def)

lemma and_then_Some [simp]: "and_then (Some e, tr) f = (Some e, tr)"
  by (simp add: and_then_def)

lemma and_then_unit [simp]: "and_then r (\<lambda>tr. (None, tr)) = r"
  by (cases r; cases "fst r") (auto simp: and_then_def)

lemma and_then_assoc: "and_then (and_then r f) g = and_then r (\<lambda>tr. and_then (f tr) g)"
  by (cases r; cases "fst r") (auto simp: and_then_def)

lemma destroy_each_append:
  "destroy_each sim (xs @ ys) tr = and_then (destroy_each sim xs tr) (destroy_each sim ys)"
proof (induction xs arbitrary: tr)
  case Nil
  then show ?case by simp
next
  case (Cons a xs)
  then have "destroy_each sim (xs @ ys) = (\<lambda>tr. and_then (destroy_each sim xs tr) (destroy_each sim ys))"
    by (simp add: fun_eq_iff)
  then show ?case by (simp add: and_then_assoc)
qed

lemma destroy_each_append_fun:
  "destroy_each sim (xs @ ys) = (\<lambda>tr. and_then (destroy_each sim xs tr) (destroy_each sim ys))"
  by (simp add: fun_eq_iff destroy_each_append)

lemma destroy_each_single: "destroy_each sim [h] tr = destroy_actor sim h tr"
proof -
  have "destroy_each sim [] = (\<lambda>tr. (None, tr))" by (simp add: fun_eq_iff)
  then show ?thesis by simp
qed

lemma destroy_if_in_locals_eq: "destroy_if_in_locals sim v tr = destroy_each sim (holds v) tr"
proof (cases v)
  case Unbound
  then show ?thesis by (simp add: destroy_if_in_locals_def)
next
  case (Bound a)
  then show ?thesis
    by (cases a) (simp_all add: destroy_if_in_locals_def destroy_each_single del: destroy_each.simps(2))
qed

lemma destroy_if_not_None_eq:
  "v \<noteq> Unbound \<Longrightarrow> destroy_if_not_None sim v tr = destroy_each sim (holds v) tr"
proof (cases v)
  case Unbound
  then show "v \<noteq> Unbound \<Longrightarrow> ?thesis" by simp
next
  case (Bound a)
  then show ?thesis
    by (cases a) (simp_all add: destroy_if_not_None_def destroy_each_single del: destroy_each.simps(2))
qed

lemma destroy_if_in_locals_fun: "destroy_if_in_locals sim v = destroy_each sim (holds v)"
  by (simp add: fun_eq_iff destroy_if_in_locals_eq)

lemma finally_addingTraffic_eq:
  assumes "holds (bus s) = []"
  shows "finally_addingTraffic sim s = destroy_each sim (held s) (trace s @ [PygameQuit])"
proof -
  have "destroy_each sim (held s) (trace s @ [PygameQuit])
        = destroy_each sim (holds (camera s) @ holds (vehicle s) @ traffic_cars s)
            (trace s @ [PygameQuit])"
    using assms by (simp add: held_def)
  also have "\<dots> = finally_addingTraffic sim s"
    by (simp only: finally_addingTraffic_def destroy_each_append destroy_each_append_fun
        destroy_if_in_locals_fun and_then_assoc and_then_None)
  finally show ?thesis by simp
qed

lemma finally_spwnSpcfcLocCamOk_eq:
  assumes "holds (bus s) = []" and "traffic_cars s = []"
  shows "finally_spwnSpcfcLocCamOk sim s = destroy_each sim (held s) (trace s @ [PygameQuit])"
proof -
  have "destroy_each sim (held s) (trace s @ [PygameQuit])
        = destroy_each sim (holds (camera s) @ holds (vehicle s)) (trace s @ [PygameQuit])"
    using assms by (simp add: held_def)
  also have "\<dots> = finally_spwnSpcfcLocCamOk sim s"
    by (simp only: finally_spwnSpcfcLocCamOk_def destroy_each_append destroy_each_append_fun
        destroy_if_in_locals_fun and_then_assoc and_then_None)
  finally show ?thesis by simp
qed

lemma finally_basicEgent_eq:
  assumes "bound_locals s"
  shows "finally_basicEgent sim s = destroy_each sim (held s) (trace s @ [PygameQuit])"
proof -
  from assms have b: "camera s \<noteq> Unbound" "vehicle s \<noteq> Unbound" "bus s \<noteq> Unbound"
    by (simp_all add: bound_locals_def)
  have "finally_basicEgent sim s
        = and_then (and_then (and_then (and_then (None, trace s @ [PygameQuit])
            (destroy_each sim (holds (camera s))))
            (destroy_each sim (holds (vehicle s))))
            (destroy_each sim (holds (bus s))))
            (destroy_each sim (traffic_cars s))"
  proof -
    have "destroy_if_not_None sim (camera s) = destroy_each sim (holds (camera s))"
      "destroy_if_not_None sim (vehicle s) = destroy_each sim (holds (vehicle s))"
      "destroy_if_not_None sim (bus s) = destroy_each sim (holds (bus s))"
      using b by (simp_all add: fun_eq_iff destroy_if_not_None_eq)
    then show ?thesis by (simp only: finally_basicEgent_def)
  qed
  also have "\<dots> = destroy_each sim (held s) (trace s @ [PygameQuit])"
    by (simp only: held_def destroy_each_append destroy_each_append_fun and_then_assoc and_then_None)
  finally show ?thesis .
qed

lemma destroy_each_post:
  "destroy_each sim hs tr = (err, tr') \<Longrightarrow> \<exists>new. tr' = tr @ new \<and> teardown_post hs err new"
proof (induction hs arbitrary: tr)
  case Nil
  then have "err = None" "tr' = tr" by simp_all
  then show ?case by (simp add: teardown_post_def)
next
  case (Cons h hs)
  let ?r = "destroy sim tr h"
  let ?e = "Destroy h ?r"
  show ?case
  proof (cases ?r)
    case (Inl e)
    with Cons.prems have r: "err = Some e" "tr' = tr @ [?e]"
      by (simp_all add: destroy_actor_def Let_def)
    have "teardown_post (h # hs) (Some e) [?e]"
      unfolding teardown_post_def
      by (rule exI [where x = 1]) (simp add: Inl)
    with r show ?thesis by simp
  next
    case (Inr b)
    with Cons.prems have "destroy_each sim hs (tr @ [?e]) = (err, tr')"
      by (simp add: destroy_actor_def Let_def)
    from Cons.IH [OF this] obtain new where new: "tr' = (tr @ [?e]) @ new"
      "teardown_post hs err new" by blast
    from new(2) obtain n where n: "n \<le> length hs" "released new = take n hs" "acquired new = []"
      "list_all teardown_entry new" "err = None \<longleftrightarrow> \<not> list_ex release_raised new"
      "err = None \<longrightarrow> n = length hs"
      "\<And>e. err = Some e \<Longrightarrow> 0 < n \<and> last new = Destroy (hs ! (n - 1)) (Inl e)"
      "\<not> list_ex release_raised (butlast new)"
      unfolding teardown_post_def by blast
    have "teardown_post (h # hs) err (?e # new)"
      unfolding teardown_post_def
    proof (intro exI [where x = "Suc n"] conjI allI impI)
      show "Suc n \<le> length (h # hs)" using n(1) by simp
      show "released (?e # new) = take (Suc n) (h # hs)" using n(2) by simp
      show "acquired (?e # new) = []" using n(3) by simp
      show "list_all teardown_entry (?e # new)" using n(4) by simp
      show "\<not> list_ex release_raised (butlast (?e # new))" using n(8) Inr by (cases new) simp_all
      show "(err = None) = (\<not> list_ex release_raised (?e # new))" using n(5) Inr by simp
      show "Suc n = length (h # hs)" if "err = None" using n(6) that by simp
      show "0 < Suc n" by simp
      show "last (?e # new) = Destroy ((h # hs) ! (Suc n - 1)) (Inl e)" if "err = Some e" for e
      proof -
        from n(7) [OF that] have "0 < n" "last new = Destroy (hs ! (n - 1)) (Inl e)" by simp_all
        moreover from this n(2,1) have "new \<noteq> []" by auto
        ultimately show ?thesis by (cases n) simp_all
      qed
    qed
    with new(1) show ?thesis by simp
  qed
qed

subsection \<open>The \<^verbatim>\<open>try\<close> bodies\<close>

lemma init_locals_tidy: "tidy init_locals" "tidy init_locals_basicEgent"
  by (simp_all add: tidy_def held_def init_locals_def init_locals_basicEgent_def)

lemma before_traffic_addingTraffic_tidy:
  assumes "before_traffic_addingTraffic sim = (fl, s)"
  shows "tidy s \<and> bus s = Unbound \<and> traffic_cars s = []"
proof -
  from assms have "vehicle_and_camera sim init_locals = (fl, s)"
    by (simp add: before_traffic_addingTraffic_def)
  from vehicle_and_camera_tidy [OF this init_locals_tidy(1)]
  show ?thesis by (simp add: init_locals_def keeps_bus_and_traffic_def)
qed


lemma try_addingTraffic_bus:
  assumes "try_addingTraffic sim fuel = (fl, s)"
  shows "bus s = Unbound"
  using assms unfolding try_addingTraffic_def
proof (cases rule: then_do_cases)
  case stopped
  then show ?thesis using before_traffic_addingTraffic_tidy by blast
next
  case (continued s1)
  from before_traffic_addingTraffic_tidy [OF continued(1)] have s1: "bus s1 = Unbound" by simp
  from continued(2) show ?thesis
  proof (cases rule: then_do_cases)
    case stopped
    from traffic_stage_locals [OF stopped(1)] s1 show ?thesis by simp
  next
    case (continued s2)
    from traffic_stage_locals [OF continued(1)] s1 have "bus s2 = Unbound" by simp
    with display_loop_logs [OF continued(2)] show ?thesis by (simp add: only_logs_def)
  qed
qed


lemma before_lights_basicEgent_tidy:
  assumes "before_lights_basicEgent sim = (fl, s)"
  shows "tidy s \<and> traffic_cars s = [] \<and> bound_locals s"
proof -
  let ?i = init_locals_basicEgent
  have i: "tidy ?i" "holds (vehicle ?i) = []" "holds (camera ?i) = []" "holds (bus ?i) = []"
    "traffic_cars ?i = []" "bound_locals ?i"
    by (simp_all add: tidy_def held_def init_locals_basicEgent_def init_locals_def bound_locals_def)
  from assms show ?thesis unfolding before_lights_basicEgent_def
  proof (cases rule: then_do_cases)
    case stopped
    from connect_stage_state [OF stopped(1)] i show ?thesis by simp
  next
    case (continued s0)
    from connect_stage_state [OF continued(1)] have s0: "s0 = ?i" .
    from continued(2) show ?thesis unfolding s0
    proof (cases rule: then_do_cases)
      case stopped
      from start_and_vehicle_tidy [OF stopped(1) i(1,2)] i show ?thesis
        by (simp add: keeps_bus_and_traffic_def bound_locals_def)
    next
      case (continued s1)
      from start_and_vehicle_tidy [OF continued(1) i(1,2)] i
      have s1: "tidy s1" "holds (camera s1) = []" "holds (bus s1) = []" "traffic_cars s1 = []"
        "bound_locals s1"
        by (simp_all add: keeps_bus_and_traffic_def bound_locals_def)
      from continued(2) show ?thesis
      proof (cases rule: then_do_cases)
        case stopped
        from attach_camera_tidy [OF stopped(1) s1(1,2)] s1 show ?thesis
          by (simp add: keeps_bus_and_traffic_def bound_locals_def)
      next
        case (continued s2)
        from attach_camera_tidy [OF continued(1) s1(1,2)] s1
        have s2: "tidy s2" "holds (bus s2) = []" "traffic_cars s2 = []" "bound_locals s2"
          by (simp_all add: keeps_bus_and_traffic_def bound_locals_def)
        from spawn_endpoint_marker_tidy [OF continued(2) s2(1,2)] s2 show ?thesis
          by (simp add: bound_locals_def)
      qed
    qed
  qed
qed

lemma before_traffic_basicEgent_tidy:
  assumes "before_traffic_basicEgent sim = (fl, s)"
  shows "tidy s \<and> traffic_cars s = [] \<and> bound_locals s"
  using assms unfolding before_traffic_basicEgent_def
proof (cases rule: then_do_cases)
  case stopped
  then show ?thesis using before_lights_basicEgent_tidy by blast
next
  case (continued s1)
  from before_lights_basicEgent_tidy [OF continued(1)]
  have s1: "tidy s1" "traffic_cars s1 = []" "bound_locals s1" by simp_all
  from lights_stage_logs [OF continued(2)] have l: "only_logs light_entry s1 s" .
  then have "only_logs neutral s1 s" by (rule only_logs_mono) (rule light_entry_neutral)
  then have "tidy s" using s1(1) by (rule tidy_only_logs)
  with l s1 show ?thesis by (simp add: only_logs_def bound_locals_def)
qed

lemma after_traffic_basicEgent:
  assumes "then_do (traffic_stage sim pick s1) (\<lambda>s. then_do (agent_stage sim s) loop) = (fl, s)"
    and loop: "\<And>s2 fl s. loop s2 = (fl, s) \<Longrightarrow> only_logs render_or_control s2 s"
    and "bound_locals s1"
  shows "bound_locals s"
  and "tidy s1 \<Longrightarrow> traffic_cars s1 = [] \<Longrightarrow> spawner_keeps_handles sim pick (Continue, s1) \<Longrightarrow> tidy s"
proof -
  have "bound_locals s \<and> (tidy s1 \<longrightarrow> traffic_cars s1 = []
          \<longrightarrow> spawner_keeps_handles sim pick (Continue, s1) \<longrightarrow> tidy s)"
    using assms(1)
  proof (cases rule: then_do_cases)
    case stopped
    from traffic_stage_locals [OF stopped(1)] traffic_stage_tidy [OF stopped(1)] assms(3)
    show ?thesis by (simp add: bound_locals_def bound_kept_def)
  next
    case (continued s2)
    from traffic_stage_locals [OF continued(1)] assms(3)
    have b2: "bound_locals s2" by (simp add: bound_locals_def bound_kept_def)
    have t2: "tidy s2" if "tidy s1" "traffic_cars s1 = []" "spawner_keeps_handles sim pick (Continue, s1)"
      using traffic_stage_tidy [OF continued(1) that] by simp
    from continued(2) show ?thesis
    proof (cases rule: then_do_cases)
      case stopped
      from agent_stage_logs [OF stopped(1)] have l: "only_logs neutral s2 s" .
      with b2 have "bound_locals s" by (simp add: only_logs_def bound_locals_def)
      with l t2 show ?thesis by (blast intro: tidy_only_logs)
    next
      case (continued s3)
      from agent_stage_logs [OF continued(1)] have l: "only_logs neutral s2 s3" .
      from loop [OF continued(2)] have "only_logs neutral s3 s"
        by (rule only_logs_mono) (rule render_or_control_neutral)
      with l have l2: "only_logs neutral s2 s" by (rule only_logs_trans)
      with b2 have "bound_locals s" by (simp add: only_logs_def bound_locals_def)
      with l2 t2 show ?thesis by (blast intro: tidy_only_logs)
    qed
  qed
  then show "bound_locals s"
    and "tidy s1 \<Longrightarrow> traffic_cars s1 = [] \<Longrightarrow> spawner_keeps_handles sim pick (Continue, s1) \<Longrightarrow> tidy s"
    by simp_all
qed

lemma try_basicEgent_unfold:
  "try_basicEgent sim fuel =
     then_do (before_traffic_basicEgent sim) (\<lambda>s.
       then_do (traffic_stage sim (pick_basicEgent sim) s) (\<lambda>s.
         then_do (agent_stage sim s) (display_loop sim True fuel 0)))"
proof -
  have assoc: "then_do (then_do r f) g = then_do r (\<lambda>s. then_do (f s) g)" for r f g
    by (cases r; cases "fst r") (auto simp: then_do_def)
  show ?thesis by (simp add: try_basicEgent_def before_loop_basicEgent_def assoc)
qed

lemma try_basicEgent_bound:
  assumes "try_basicEgent sim fuel = (fl, s)"
  shows "bound_locals s"
  using assms unfolding try_basicEgent_unfold
proof (cases rule: then_do_cases)
  case stopped
  then show ?thesis using before_traffic_basicEgent_tidy by blast
next
  case (continued s1)
  from before_traffic_basicEgent_tidy [OF continued(1)] have b: "bound_locals s1" by simp
  show ?thesis
    by (rule after_traffic_basicEgent(1) [OF continued(2) _ b]) (rule display_loop_logs)
qed


lemma try_finally_Exited:
  assumes "try_finally body teardown = (Exited err, tr)"
  obtains fl s where "body = (fl, s)" "fl \<noteq> OutOfFuel" "teardown s = (err, tr)"
  using assms
  by (cases body; cases "fst body") (auto simp: try_finally_def split: prod.splits)



lemma main_teardown:
  "(main_basicEgent sim fuel = (Exited err, tr) \<longrightarrow>
      (\<exists>fl s new. try_basicEgent sim fuel = (fl, s) \<and> tr = trace s @ PygameQuit # new
         \<and> teardown_post (holds (camera s) @ holds (vehicle s) @ holds (bus s) @ traffic_cars s)
              err new))
   \<and> (main_addingTraffic sim fuel = (Exited err, tr) \<longrightarrow>
      (\<exists>fl s new. try_addingTraffic sim fuel = (fl, s) \<and> tr = trace s @ PygameQuit # new
         \<and> teardown_post (holds (camera s) @ holds (vehicle s) @ traffic_cars s) err new))"
proof (intro conjI impI)
  assume run: "main_basicEgent sim fuel = (Exited err, tr)"
  from run obtain fl s where body: "try_basicEgent sim fuel = (fl, s)"
    and fin: "finally_basicEgent sim s = (err, tr)"
    unfolding main_basicEgent_def by (rule try_finally_Exited)
  from fin try_basicEgent_bound [OF body]
  have "destroy_each sim (held s) (trace s @ [PygameQuit]) = (err, tr)"
    by (simp add: finally_basicEgent_eq)
  from destroy_each_post [OF this] obtain new where "tr = (trace s @ [PygameQuit]) @ new"
    "teardown_post (held s) err new" by blast
  with body show "\<exists>fl s new. try_basicEgent sim fuel = (fl, s) \<and> tr = trace s @ PygameQuit # new
         \<and> teardown_post (holds (camera s) @ holds (vehicle s) @ holds (bus s) @ traffic_cars s)
              err new"
    by (auto simp: held_def)
next
  assume run: "main_addingTraffic sim fuel = (Exited err, tr)"
  from run obtain fl s where body: "try_addingTraffic sim fuel = (fl, s)"
    and fin: "finally_addingTraffic sim s = (err, tr)"
    unfolding main_addingTraffic_def by (rule try_finally_Exited)
  from try_addingTraffic_bus [OF body] have bus: "holds (bus s) = []" by simp
  with fin have "destroy_each sim (held s) (trace s @ [PygameQuit]) = (err, tr)"
    by (simp add: finally_addingTraffic_eq)
  from destroy_each_post [OF this] obtain new where "tr = (trace s @ [PygameQuit]) @ new"
    "teardown_post (held s) err new" by blast
  with body bus show "\<exists>fl s new. try_addingTraffic sim fuel = (fl, s) \<and> tr = trace s @ PygameQuit # new
         \<and> teardown_post (holds (camera s) @ holds (vehicle s) @ traffic_cars s) err new"
    by (auto simp: held_def)
qed

text \<open>
  C3. On every exit path the teardown makes its release calls in the fixed
  order camera, reference vehicle, marker (bus), traffic cars: the handles released are
  the first \<open>n\<close> of that order. The boolean a release returns is ignored: when no release
  raises, \<^verbatim>\<open>main\<close> ends without an exception and all the handles held are released.
  A release that raises is not tolerated: \<^verbatim>\<open>main\<close> ends without an exception only if
  no release raised; a release that raises is the last call of the teardown (no call
  before the last one raised), the handles after it in the order are not released, and
  the exception it raised is the one that leaves \<^verbatim>\<open>main\<close>.
\<close>

theorem C3_release_order:
  "(main_basicEgent sim fuel = (Exited err, tr) \<longrightarrow>
      (\<exists>fl s new n. try_basicEgent sim fuel = (fl, s) \<and> tr = trace s @ PygameQuit # new
         \<and> list_all teardown_entry new
         \<and> n \<le> length (release_order_basicEgent s)
         \<and> released new = take n (release_order_basicEgent s)
         \<and> \<not> list_ex release_raised (butlast new)
         \<and> (err = None \<longleftrightarrow> \<not> list_ex release_raised new)
         \<and> (err = None \<longrightarrow> released new = release_order_basicEgent s)
         \<and> (\<forall>e. err = Some e \<longrightarrow>
               0 < n \<and> last new = Destroy (release_order_basicEgent s ! (n - 1)) (Inl e))))
   \<and> (main_addingTraffic sim fuel = (Exited err, tr) \<longrightarrow>
      (\<exists>fl s new n. try_addingTraffic sim fuel = (fl, s) \<and> tr = trace s @ PygameQuit # new
         \<and> list_all teardown_entry new
         \<and> n \<le> length (release_order_addingTraffic s)
         \<and> released new = take n (release_order_addingTraffic s)
         \<and> \<not> list_ex release_raised (butlast new)
         \<and> (err = None \<longleftrightarrow> \<not> list_ex release_raised new)
         \<and> (err = None \<longrightarrow> released new = release_order_addingTraffic s)
         \<and> (\<forall>e. err = Some e \<longrightarrow>
               0 < n \<and> last new = Destroy (release_order_addingTraffic s ! (n - 1)) (Inl e))))"
proof (intro conjI impI)
  assume "main_basicEgent sim fuel = (Exited err, tr)"
  with main_teardown [of sim fuel err tr] obtain fl s new where
    h: "try_basicEgent sim fuel = (fl, s)" "tr = trace s @ PygameQuit # new"
    "teardown_post (release_order_basicEgent s) err new"
    unfolding release_order_basicEgent_def by blast
  from h(3) obtain n where n: "released new = take n (release_order_basicEgent s)"
    "list_all teardown_entry new" "err = None \<longleftrightarrow> \<not> list_ex release_raised new"
    "err = None \<longrightarrow> n = length (release_order_basicEgent s)"
    "\<forall>e. err = Some e \<longrightarrow>
        0 < n \<and> last new = Destroy (release_order_basicEgent s ! (n - 1)) (Inl e)"
    "n \<le> length (release_order_basicEgent s)" "\<not> list_ex release_raised (butlast new)"
    unfolding teardown_post_def by blast
  from n(1,4) have "err = None \<longrightarrow> released new = release_order_basicEgent s" by simp
  with h(1,2) n(1,2,3,5,6,7)
  show "\<exists>fl s new n. try_basicEgent sim fuel = (fl, s) \<and> tr = trace s @ PygameQuit # new
         \<and> list_all teardown_entry new
         \<and> n \<le> length (release_order_basicEgent s)
         \<and> released new = take n (release_order_basicEgent s)
         \<and> \<not> list_ex release_raised (butlast new)
         \<and> (err = None \<longleftrightarrow> \<not> list_ex release_raised new)
         \<and> (err = None \<longrightarrow> released new = release_order_basicEgent s)
         \<and> (\<forall>e. err = Some e \<longrightarrow>
               0 < n \<and> last new = Destroy (release_order_basicEgent s ! (n - 1)) (Inl e))"
    by blast
next
  assume "main_addingTraffic sim fuel = (Exited err, tr)"
  with main_teardown [of sim fuel err tr] obtain fl s new where
    h: "try_addingTraffic sim fuel = (fl, s)" "tr = trace s @ PygameQuit # new"
    "teardown_post (release_order_addingTraffic s) err new"
    unfolding release_order_addingTraffic_def by blast
  from h(3) obtain n where n: "released new = take n (release_order_addingTraffic s)"
    "list_all teardown_entry new" "err = None \<longleftrightarrow> \<not> list_ex release_raised new"
    "err = None \<longrightarrow> n = length (release_order_addingTraffic s)"
    "\<forall>e. err = Some e \<longrightarrow>
        0 < n \<and> last new = Destroy (release_order_addingTraffic s ! (n - 1)) (Inl e)"
    "n \<le> length (release_order_addingTraffic s)" "\<not> list_ex release_raised (butlast new)"
    unfolding teardown_post_def by blast
  from n(1,4) have "err = None \<longrightarrow> released new = release_order_addingTraffic s" by simp
  with h(1,2) n(1,2,3,5,6,7)
  show "\<exists>fl s new n. try_addingTraffic sim fuel = (fl, s) \<and> tr = trace s @ PygameQuit # new
         \<and> list_all teardown_entry new
         \<and> n \<le> length (release_order_addingTraffic s)
         \<and> released new = take n (release_order_addingTraffic s)
         \<and> \<not> list_ex release_raised (butlast new)
         \<and> (err = None \<longleftrightarrow> \<not> list_ex release_raised new)
         \<and> (err = None \<longrightarrow> released new = release_order_addingTraffic s)
         \<and> (\<forall>e. err = Some e \<longrightarrow>
               0 < n \<and> last new = Destroy (release_order_addingTraffic s ! (n - 1)) (Inl e))"
    by blast
qed

subsection \<open>Traffic lights at the start of the display loop\<close>

lemma map_of_rev_const:
  "h \<in> set hs \<Longrightarrow> map_of (rev (map (\<lambda>h. (h, c)) hs)) h = Some c"
proof -
  assume "h \<in> set hs"
  then have "h \<in> set (rev hs)" by simp
  then have "map_of (map (\<lambda>h. (h, c)) (rev hs)) h = Some c"
    by (induction "rev hs" arbitrary: hs) (auto simp: map_of_map_restrict)
  then show ?thesis by (simp add: rev_map)
qed

lemma light_commands_settings:
  "concat (map state_set_by (concat (map light_commands ls))) = map (\<lambda>h. (h, Red)) ls"
  "concat (map green_time_set_by (concat (map light_commands ls))) = map (\<lambda>h. (h, 5)) ls"
  "concat (map red_time_set_by (concat (map light_commands ls))) = map (\<lambda>h. (h, 5)) ls"
  by (induction ls) (simp_all add: light_commands_def)

lemma no_settings_after:
  assumes "list_all (\<lambda>e. \<not> light_entry e) rest"
  shows "concat (map state_set_by rest) = []"
    "concat (map green_time_set_by rest) = []"
    "concat (map red_time_set_by rest) = []"
proof -
  have "state_set_by e = [] \<and> green_time_set_by e = [] \<and> red_time_set_by e = []"
    if "\<not> light_entry e" for e
    using that
    by (cases e rule: light_entry.cases) simp_all
  with assms show "concat (map state_set_by rest) = []"
    "concat (map green_time_set_by rest) = []"
    "concat (map red_time_set_by rest) = []"
    by (induction rest) simp_all
qed

lemma lights_configured:
  assumes "h \<in> set ls" and "list_all (\<lambda>e. \<not> light_entry e) rest"
  shows "light_state_of (tr @ concat (map light_commands ls) @ rest) h = Some Red"
    and "green_time_of (tr @ concat (map light_commands ls) @ rest) h = Some 5"
    and "red_time_of (tr @ concat (map light_commands ls) @ rest) h = Some 5"
proof -
  note quiet = no_settings_after [OF assms(2)]
  have "light_state_of (tr @ concat (map light_commands ls) @ rest) h
        = map_of (rev (map (\<lambda>h. (h, Red)) ls) @ rev (concat (map state_set_by tr))) h"
    unfolding light_state_of_def
    by (simp only: map_append concat_append quiet light_commands_settings append_Nil2 rev_append)
  then show "light_state_of (tr @ concat (map light_commands ls) @ rest) h = Some Red"
    using map_of_rev_const [OF assms(1), of Red] by (simp add: map_add_find_right)
  have "green_time_of (tr @ concat (map light_commands ls) @ rest) h
        = map_of (rev (map (\<lambda>h. (h, 5)) ls) @ rev (concat (map green_time_set_by tr))) h"
    unfolding green_time_of_def
    by (simp only: map_append concat_append quiet light_commands_settings append_Nil2 rev_append)
  then show "green_time_of (tr @ concat (map light_commands ls) @ rest) h = Some 5"
    using map_of_rev_const [OF assms(1), of "5::real"] by (simp add: map_add_find_right)
  have "red_time_of (tr @ concat (map light_commands ls) @ rest) h
        = map_of (rev (map (\<lambda>h. (h, 5)) ls) @ rev (concat (map red_time_set_by tr))) h"
    unfolding red_time_of_def
    by (simp only: map_append concat_append quiet light_commands_settings append_Nil2 rev_append)
  then show "red_time_of (tr @ concat (map light_commands ls) @ rest) h = Some 5"
    using map_of_rev_const [OF assms(1), of "5::real"] by (simp add: map_add_find_right)
qed

lemma spawner_entry_not_light: "spawner_entry e \<Longrightarrow> \<not> light_entry e"
  by (cases e rule: spawner_entry.cases) simp_all

lemma traffic_stage_trace:
  assumes "traffic_stage sim pick s = (fl, s')"
  shows "\<exists>new. trace s' = trace s @ new \<and> list_all spawner_entry new"
proof -
  obtain res tr where r: "spawn_traffic_cars sim pick 10 (trace s) = (res, tr)"
    by (cases "spawn_traffic_cars sim pick 10 (trace s)") auto
  from spawn_traffic_cars_summary [OF r] obtain new where
    "tr = trace s @ new" "list_all spawner_entry new" by blast
  moreover from assms r have "trace s' = tr"
    by (cases res) (auto simp: traffic_stage_def)
  ultimately show ?thesis by simp
qed

lemma agent_stage_trace:
  assumes "agent_stage sim s = (fl, s')"
  shows "\<exists>new. trace s' = trace s @ new \<and> list_all (\<lambda>e. \<not> light_entry e) new"
proof (cases "deref (vehicle s)")
  case (Inl e)
  with assms show ?thesis by (simp add: agent_stage_def)
next
  case (Inr veh)
  with assms have "then_do (send_command sim (BasicAgent veh) s)
      (\<lambda>s. send_command sim (SetDestination (endpoint_location s)) s) = (fl, s')"
    by (simp add: agent_stage_def)
  then have "only_logs (\<lambda>e. \<not> light_entry e) s s'"
  proof (cases rule: then_do_cases)
    case stopped
    show ?thesis by (rule send_command_logs [OF stopped(1)]) simp
  next
    case (continued s1)
    have "only_logs (\<lambda>e. \<not> light_entry e) s s1"
      by (rule send_command_logs [OF continued(1)]) simp
    moreover have "only_logs (\<lambda>e. \<not> light_entry e) s1 s'"
      by (rule send_command_logs [OF continued(2)]) simp
    ultimately show ?thesis by (rule only_logs_trans)
  qed
  then show ?thesis by (simp add: only_logs_def)
qed

text \<open>
  C10. In \<^verbatim>\<open>basicEgentFirstTime.py\<close>, when the display loop starts, every traffic light
  that the world reported has been set to Red, with a green time and a red time of 5
  seconds, and these are the last settings the script made on it. These calls configure
  actors that the world reported; they are neither creation requests nor releases.
\<close>

theorem C10_traffic_lights_red_before_loop:
  assumes "before_loop_basicEgent sim = (Continue, s)"
  shows "\<exists>s0 lights rest. before_lights_basicEgent sim = (Continue, s0)
           \<and> get_traffic_lights sim (trace s0) = Inr lights
           \<and> trace s = trace s0 @ concat (map light_commands lights) @ rest
           \<and> (\<forall>h \<in> set lights. light_state_of (trace s) h = Some Red
                  \<and> green_time_of (trace s) h = Some 5 \<and> red_time_of (trace s) h = Some 5)"
proof -
  from assms have "then_do (before_traffic_basicEgent sim) (\<lambda>s.
      then_do (traffic_stage sim (pick_basicEgent sim) s) (agent_stage sim)) = (Continue, s)"
    by (simp add: before_loop_basicEgent_def)
  then obtain s1 where s1: "before_traffic_basicEgent sim = (Continue, s1)"
    and rest1: "then_do (traffic_stage sim (pick_basicEgent sim) s1) (agent_stage sim) = (Continue, s)"
    by (cases rule: then_do_cases) simp_all
  from rest1 obtain s2 where s2: "traffic_stage sim (pick_basicEgent sim) s1 = (Continue, s2)"
    and s3: "agent_stage sim s2 = (Continue, s)"
    by (cases rule: then_do_cases) simp_all
  from s1 obtain s0 where s0: "before_lights_basicEgent sim = (Continue, s0)"
    and l: "lights_stage sim s0 = (Continue, s1)"
    unfolding before_traffic_basicEgent_def by (cases rule: then_do_cases) simp_all
  obtain res tr where r: "setup_traffic_lights sim (trace s0) = (res, tr)"
    by (cases "setup_traffic_lights sim (trace s0)") auto
  with l obtain lights where res: "res = Inr lights" and tr: "trace s1 = tr"
    by (cases res) (auto simp: lights_stage_def)
  from setup_traffic_lights_trace [OF r] res
  have lights: "get_traffic_lights sim (trace s0) = Inr lights"
    and t1: "trace s1 = trace s0 @ concat (map light_commands lights)"
    using tr by auto
  from traffic_stage_trace [OF s2] obtain new2 where n2: "trace s2 = trace s1 @ new2"
    "list_all spawner_entry new2" by blast
  from agent_stage_trace [OF s3] obtain new3 where n3: "trace s = trace s2 @ new3"
    "list_all (\<lambda>e. \<not> light_entry e) new3" by blast
  from n2(2) have "list_all (\<lambda>e. \<not> light_entry e) new2"
    by (simp add: list_all_iff spawner_entry_not_light)
  with n3(2) have quiet: "list_all (\<lambda>e. \<not> light_entry e) (new2 @ new3)" by simp
  have t: "trace s = trace s0 @ concat (map light_commands lights) @ (new2 @ new3)"
    using t1 n2(1) n3(1) by simp
  have "\<forall>h \<in> set lights. light_state_of (trace s) h = Some Red
            \<and> green_time_of (trace s) h = Some 5 \<and> red_time_of (trace s) h = Some 5"
    unfolding t using lights_configured [OF _ quiet] by blast
  with s0 lights t show ?thesis by blast
qed

subsection \<open>Quit events and malformed frames in the display loop\<close>




lemma decoder_error:
  "carla_image_to_pygame img = Inl e \<longleftrightarrow>
     e = ValueError \<and> length (raw_data img) \<noteq> width img * height img * 4"
  using decoder_error_iff [of img] decoder_error_only [of img e] by auto

lemma render_malformed:
  assumes "deliver (frames sim k) (latest_image s) = Some img" and "truthy sim img"
    and "length (raw_data img) \<noteq> width img * height img * 4"
  shows "render sim k s = (Raise ValueError, s\<lparr>latest_image := Some img\<rparr>)"
proof -
  from assms(3) have "carla_image_to_pygame img = Inl ValueError"
    by (simp add: decoder_error_iff)
  with assms(1,2) show ?thesis by (simp add: render_def Let_def)
qed

text \<open>
  C4. The decoder raises exactly when the buffer size differs from
  width * height * 4, and then it raises ValueError. A tick of the display loop whose
  latest frame is malformed (and counts as true in \<^verbatim>\<open>if latest_image:\<close>) makes no
  render call (no blit, no flip), and the error ends the loop: the session goes to its
  teardown and exits, it does not continue.
\<close>

theorem C4_malformed_frame_ends_session:
  "(carla_image_to_pygame img = Inl e \<longleftrightarrow>
       e = ValueError \<and> length (raw_data img) \<noteq> width img * height img * 4)
   \<and> (\<not> quit_seen (events sim k)
        \<longrightarrow> deliver (frames sim k) (latest_image s) = Some img \<and> truthy sim img
        \<longrightarrow> length (raw_data img) \<noteq> width img * height img * 4
        \<longrightarrow> display_loop sim False (Suc n) k s = (Raise ValueError, s\<lparr>latest_image := Some img\<rparr>))
   \<and> (\<not> quit_seen (events sim k)
        \<longrightarrow> agent_step sim s = (Continue, s1)
        \<longrightarrow> deliver (frames sim k) (latest_image s1) = Some img \<and> truthy sim img
        \<longrightarrow> length (raw_data img) \<noteq> width img * height img * 4
        \<longrightarrow> display_loop sim True (Suc n) k s = (Raise ValueError, s1\<lparr>latest_image := Some img\<rparr>))
   \<and> try_finally (Raise ValueError, s2) teardown = (Exited (fst (teardown s2)), snd (teardown s2))"
proof (intro conjI impI)
  show "carla_image_to_pygame img = Inl e \<longleftrightarrow>
       e = ValueError \<and> length (raw_data img) \<noteq> width img * height img * 4"
    by (rule decoder_error)
next
  assume "\<not> quit_seen (events sim k)"
    "deliver (frames sim k) (latest_image s) = Some img \<and> truthy sim img"
    "length (raw_data img) \<noteq> width img * height img * 4"
  then show "display_loop sim False (Suc n) k s = (Raise ValueError, s\<lparr>latest_image := Some img\<rparr>)"
    by (simp add: render_malformed)
next
  assume "\<not> quit_seen (events sim k)" "agent_step sim s = (Continue, s1)"
    "deliver (frames sim k) (latest_image s1) = Some img \<and> truthy sim img"
    "length (raw_data img) \<noteq> width img * height img * 4"
  then show "display_loop sim True (Suc n) k s = (Raise ValueError, s1\<lparr>latest_image := Some img\<rparr>)"
    by (simp add: render_malformed)
next
  show "try_finally (Raise ValueError, s2) teardown = (Exited (fst (teardown s2)), snd (teardown s2))"
    by (simp add: try_finally_def split: prod.splits)
qed

section \<open>The theorems on concrete sessions\<close>



theorem C3_witness:
  "(\<exists>fl s new. try_basicEgent stale_handle_simulator 2 = (fl, s)
      \<and> snd (main_basicEgent stale_handle_simulator 2) = trace s @ PygameQuit # new
      \<and> list_all teardown_entry new
      \<and> \<not> list_ex release_raised new
      \<and> released new = release_order_basicEgent s)
   \<and> (\<exists>fl s new n. try_addingTraffic failing_release_simulator 2 = (fl, s)
      \<and> snd (main_addingTraffic failing_release_simulator 2) = trace s @ PygameQuit # new
      \<and> list_all teardown_entry new
      \<and> released new = take n (release_order_addingTraffic s)
      \<and> list_ex release_raised new \<and> \<not> list_ex release_raised (butlast new)
      \<and> 0 < n \<and> last new = Destroy (release_order_addingTraffic s ! (n - 1)) (Inl RuntimeError))"
proof (rule conjI)
  have a: "main_basicEgent stale_handle_simulator 2
             = (Exited None, snd (main_basicEgent stale_handle_simulator 2))"
    by (rule prod_eqI) (code_simp, simp)
  with C3_release_order [of stale_handle_simulator 2 None "snd (main_basicEgent stale_handle_simulator 2)"]
  show "\<exists>fl s new. try_basicEgent stale_handle_simulator 2 = (fl, s)
      \<and> snd (main_basicEgent stale_handle_simulator 2) = trace s @ PygameQuit # new
      \<and> list_all teardown_entry new
      \<and> \<not> list_ex release_raised new
      \<and> released new = release_order_basicEgent s" by blast
next
  have a: "main_addingTraffic failing_release_simulator 2
             = (Exited (Some RuntimeError), snd (main_addingTraffic failing_release_simulator 2))"
    by (rule prod_eqI) (code_simp, simp)
  with C3_release_order [of failing_release_simulator 2 "Some RuntimeError"
      "snd (main_addingTraffic failing_release_simulator 2)"]
  show "\<exists>fl s new n. try_addingTraffic failing_release_simulator 2 = (fl, s)
      \<and> snd (main_addingTraffic failing_release_simulator 2) = trace s @ PygameQuit # new
      \<and> list_all teardown_entry new
      \<and> released new = take n (release_order_addingTraffic s)
      \<and> list_ex release_raised new \<and> \<not> list_ex release_raised (butlast new)
      \<and> 0 < n \<and> last new = Destroy (release_order_addingTraffic s ! (n - 1)) (Inl RuntimeError)"
    by blast
qed

theorem C3_counterexample:
  "fst (main_basicEgent failing_release_simulator 2) = Exited (Some RuntimeError)
   \<and> acquired (snd (main_basicEgent failing_release_simulator 2)) = [0, 1, 3, 11]
   \<and> released (snd (main_basicEgent failing_release_simulator 2)) = [1]"
  by code_simp

theorem C4_witness:
  "display_loop malformed_frame_simulator False (Suc 2) 0 init_locals
     = (Raise ValueError, init_locals\<lparr>latest_image := Some malformed_frame\<rparr>)"
proof -
  have q: "\<not> quit_seen (events malformed_frame_simulator 0)"
    by (simp add: malformed_frame_simulator_def)
  have d: "deliver (frames malformed_frame_simulator 0) (latest_image init_locals) = Some malformed_frame
           \<and> truthy malformed_frame_simulator malformed_frame"
    by (simp add: malformed_frame_simulator_def calm_simulator_def process_image_def
        malformed_frame_def)
  have m: "length (raw_data malformed_frame) \<noteq> width malformed_frame * height malformed_frame * 4"
    by (simp add: malformed_frame_def)
  from C4_malformed_frame_ends_session
    [of malformed_frame ValueError malformed_frame_simulator 0 init_locals 2] q d m
  show ?thesis by blast
qed

theorem C4_counterexample:
  "main_spwnSpcfcLocCamOk malformed_frame_simulator 3
     = (Exited None,
        [TrySpawnActor ''vehicle.tesla.model3'' (pose_at 1) (Inr (Some 0)),
         SpawnActor ''sensor.camera.rgb'' third_person_camera (Some 0) (Inr 1),
         Command (Listen 1) None,
         PygameQuit, Destroy 1 (Inr True), Destroy 0 (Inr True)])"
  by code_simp


theorem C6_witness:
  "requested_poses (snd (spawn_traffic_cars calm_simulator pick_addingTraffic 3 [])) ! 0
     = requested_poses (snd (spawn_traffic_cars calm_simulator pick_addingTraffic 3 [])) ! 2"
proof -
  let ?run = "spawn_traffic_cars calm_simulator pick_addingTraffic 3 []"
  have ret: "fst ?run = Inr [0, 2]" by code_simp
  then have run: "?run = (Inr [0, 2], snd ?run)" by (simp add: prod_eq_iff)
  have pts: "get_spawn_points calm_simulator [] = Inr [pose_at 1, pose_at 2]"
    by (simp add: calm_simulator_def)
  from C6_poses_assigned_cyclically [OF run pts]
  obtain new where new: "requested_poses (snd ?run) = requested_poses [] @ new"
    "length new = nat 3"
    "\<forall>i. i + length [pose_at 1, pose_at 2] < length new \<longrightarrow>
         new ! i = new ! (i + length [pose_at 1, pose_at 2])"
    by auto
  from new(2,3) have "new ! 0 = new ! 2" by (simp add: numeral_2_eq_2)
  with new(1) show ?thesis by (simp add: requested_poses_def)
qed



theorem C8_witness:
  "deliver [malformed_frame, well_formed_frame] None = Some well_formed_frame"
  using C8_latest_frame_is_last [of "[malformed_frame, well_formed_frame]" None]
  by simp

theorem C9_witness:
  "spawn_traffic_cars empty_map_simulator pick_addingTraffic 3 [] = (Inl ZeroDivisionError, [])"
proof -
  have "get_spawn_points empty_map_simulator [] = Inr []"
    by (simp add: empty_map_simulator_def)
  from C9_empty_pose_list_raises [OF _ this, of 3 pick_addingTraffic] show ?thesis by simp
qed

theorem C10_witness:
  "light_state_of (trace (snd (before_loop_basicEgent calm_simulator))) 100 = Some Red
   \<and> green_time_of (trace (snd (before_loop_basicEgent calm_simulator))) 100 = Some 5
   \<and> red_time_of (trace (snd (before_loop_basicEgent calm_simulator))) 100 = Some 5"
proof -
  let ?s = "snd (before_loop_basicEgent calm_simulator)"
  have "fst (before_loop_basicEgent calm_simulator) = Continue" by code_simp
  then have run: "before_loop_basicEgent calm_simulator = (Continue, ?s)"
    by (simp add: prod_eq_iff)
  from C10_traffic_lights_red_before_loop [OF run]
  obtain s0 lights rest where "before_lights_basicEgent calm_simulator = (Continue, s0)"
    and l: "get_traffic_lights calm_simulator (trace s0) = Inr lights"
    "trace ?s = trace s0 @ concat (map light_commands lights) @ rest"
    "\<forall>h \<in> set lights. light_state_of (trace ?s) h = Some Red
        \<and> green_time_of (trace ?s) h = Some 5 \<and> red_time_of (trace ?s) h = Some 5"
    by (elim exE conjE)
  from l(1) have "lights = [100, 101]" by (simp add: calm_simulator_def)
  with l(3) show ?thesis by simp
qed

end
